theory Spec2Isabelle
  imports Main "HOL-Library.Word" "HOL-Library.Sublist"
begin

section \<open>Python values used by the SectLabel tooling\<close>

text \<open>
  A Python \<open>str\<close> is a sequence of Unicode code points; a \<open>bytes\<close> object is a
  sequence of octets. \<open>str ''...''\<close> writes an ASCII literal.
\<close>

type_synonym pystr = "nat list"
type_synonym pybytes = "8 word list"

definition str :: "string \<Rightarrow> pystr" where
  "str s = map of_char s"

text \<open>\<open>sub in s\<close> for two strings: \<open>sub\<close> occurs in \<open>s\<close> as a contiguous run.\<close>

fun str_contains :: "pystr \<Rightarrow> pystr \<Rightarrow> bool" where
  "str_contains sub [] = (sub = [])"
| "str_contains sub (c # cs) = (prefix sub (c # cs) \<or> str_contains sub cs)"

text \<open>
  \<open>s.replace(old, new, count)\<close>; \<open>count = None\<close> stands for the default (replace
  every occurrence). Occurrences are taken from the left and do not overlap. With an
  empty \<open>old\<close> Python puts \<open>new\<close> before each character and at the end.
\<close>

fun dec_count :: "nat option \<Rightarrow> nat option" where
  "dec_count None = None"
| "dec_count (Some n) = Some (n - 1)"

fun str_interleave :: "pystr \<Rightarrow> nat option \<Rightarrow> pystr \<Rightarrow> pystr" where
  "str_interleave new count [] = (if count = Some 0 then [] else new)"
| "str_interleave new count (c # cs) =
     (if count = Some 0 then c # cs else new @ c # str_interleave new (dec_count count) cs)"

function str_replace_from :: "pystr \<Rightarrow> pystr \<Rightarrow> nat option \<Rightarrow> pystr \<Rightarrow> pystr" where
  "str_replace_from old new count s =
     (if count = Some 0 \<or> old = [] then s
      else if prefix old s then new @ str_replace_from old new (dec_count count) (drop (length old) s)
      else (case s of [] \<Rightarrow> [] | c # cs \<Rightarrow> c # str_replace_from old new count cs))"
  by pat_completeness auto
termination
  by (relation "measure (\<lambda>(old, new, count, s). length s)") (auto simp: prefix_def)

definition str_replace :: "pystr \<Rightarrow> pystr \<Rightarrow> nat option \<Rightarrow> pystr \<Rightarrow> pystr" where
  "str_replace old new count s =
     (if old = [] then str_interleave new count s else str_replace_from old new count s)"

text \<open>
  \<open>str.isspace\<close> on one character: the code points CPython's Unicode database marks
  as whitespace.
\<close>

definition isspace :: "nat \<Rightarrow> bool" where
  "isspace c \<longleftrightarrow>
     (0x09 \<le> c \<and> c \<le> 0x0D) \<or> (0x1C \<le> c \<and> c \<le> 0x20) \<or> c = 0x85 \<or> c = 0xA0 \<or>
     c = 0x1680 \<or> (0x2000 \<le> c \<and> c \<le> 0x200A) \<or> c = 0x2028 \<or> c = 0x2029 \<or>
     c = 0x202F \<or> c = 0x205F \<or> c = 0x3000"

text \<open>\<open>s.strip()\<close>: whitespace removed at both ends.\<close>

definition strip :: "pystr \<Rightarrow> pystr" where
  "strip s = rev (dropWhile isspace (rev (dropWhile isspace s)))"

text \<open>
  \<open>s.split()\<close> with no separator: skip a run of whitespace, take the run of
  non-whitespace that follows as one word, and go on until the string ends.
\<close>

function split :: "pystr \<Rightarrow> pystr list" where
  "split s =
     (case dropWhile isspace s of
        [] \<Rightarrow> []
      | c # cs \<Rightarrow> (c # takeWhile (\<lambda>x. \<not> isspace x) cs) # split (dropWhile (\<lambda>x. \<not> isspace x) cs))"
  by pat_completeness auto
termination
proof (relation "measure length")
  show "wf (measure length)" by simp
next
  fix s :: pystr and c cs
  assume h: "dropWhile isspace s = c # cs"
  have "length (dropWhile (\<lambda>x. \<not> isspace x) cs) \<le> length cs"
    by (rule length_dropWhile_le)
  moreover have "length (c # cs) \<le> length s"
    using length_dropWhile_le [of isspace s] h by simp
  ultimately show "(dropWhile (\<lambda>x. \<not> isspace x) cs, s) \<in> measure length"
    by simp
qed

declare split.simps [simp del]
declare str_replace_from.simps [simp del]

section \<open>model.py: the tokens of \<open>run_once\<close>\<close>

text \<open>
  \<open>tokens = text.strip().split()\<close>, the first statement of \<open>run_once\<close>. What follows
  it in \<open>run_once\<close> hands the tokens to the ELMo model, which is outside this
  development.
\<close>

definition run_once_tokens :: "pystr \<Rightarrow> pystr list" where
  "run_once_tokens text = split (strip text)"

section \<open>Exceptions\<close>

text \<open>
  The built-in exception classes the tools raise or catch, with Python's method
  resolution order: \<open>isinstance e c\<close> holds when \<open>c\<close> is the class of \<open>e\<close> or one of
  its bases. \<open>SystemExit\<close> and \<open>KeyboardInterrupt\<close> derive from \<open>BaseException\<close>
  only, so \<open>except Exception\<close> does not catch them.
\<close>

datatype exc_class =
    BaseException | SystemExit | KeyboardInterrupt | Exception
  | RuntimeError | ImportError | ModuleNotFoundError
  | OSError | FileNotFoundError | PermissionError | IsADirectoryError
  | ValueError | UnicodeError | UnicodeEncodeError

fun mro :: "exc_class \<Rightarrow> exc_class list" where
  "mro BaseException = [BaseException]"
| "mro SystemExit = [SystemExit, BaseException]"
| "mro KeyboardInterrupt = [KeyboardInterrupt, BaseException]"
| "mro Exception = [Exception, BaseException]"
| "mro RuntimeError = [RuntimeError, Exception, BaseException]"
| "mro ImportError = [ImportError, Exception, BaseException]"
| "mro ModuleNotFoundError = [ModuleNotFoundError, ImportError, Exception, BaseException]"
| "mro OSError = [OSError, Exception, BaseException]"
| "mro FileNotFoundError = [FileNotFoundError, OSError, Exception, BaseException]"
| "mro PermissionError = [PermissionError, OSError, Exception, BaseException]"
| "mro IsADirectoryError = [IsADirectoryError, OSError, Exception, BaseException]"
| "mro ValueError = [ValueError, Exception, BaseException]"
| "mro UnicodeError = [UnicodeError, ValueError, Exception, BaseException]"
| "mro UnicodeEncodeError =
     [UnicodeEncodeError, UnicodeError, ValueError, Exception, BaseException]"

text \<open>An exception object: its class and \<open>str(e)\<close>.\<close>

datatype exc = Exc (cls: exc_class) (msg: pystr)

definition isinstance :: "exc \<Rightarrow> exc_class \<Rightarrow> bool" where
  "isinstance e c = (c \<in> set (mro (cls e)))"

section \<open>The machine the tools run on\<close>

text \<open>
  A path names a regular file (with its bytes) or a directory, or nothing. The world
  also holds the platform, the process environment, and \<open>str.lower\<close> as the
  interpreter's Unicode tables give it.
\<close>

datatype platform = Windows | Posix

datatype node = File pybytes | Dir

datatype event = Wrote pystr pybytes | Printed pystr

record world =
  plat :: platform
  environ :: "pystr \<rightharpoonup> pystr"
  fs :: "pystr \<rightharpoonup> node"
  str_lower :: "pystr \<Rightarrow> pystr"
  log :: "event list"

text \<open>\<open>os.path.isfile\<close> and \<open>Path.exists\<close>; the empty path names nothing.\<close>

definition isfile :: "world \<Rightarrow> pystr \<Rightarrow> bool" where
  "isfile w p = (p \<noteq> [] \<and> (case fs w p of Some (File b) \<Rightarrow> True | Some Dir \<Rightarrow> False | None \<Rightarrow> False))"

definition exists_path :: "world \<Rightarrow> pystr \<Rightarrow> bool" where
  "exists_path w p = (p \<noteq> [] \<and> fs w p \<noteq> None)"

text \<open>\<open>print(s)\<close>.\<close>

definition print :: "pystr \<Rightarrow> world \<Rightarrow> world" where
  "print s w = w\<lparr>log := log w @ [Printed s]\<rparr>"

section \<open>model.py: \<open>resolve_path\<close>\<close>

text \<open>
  An argument that may be \<open>None\<close> is an option. \<open>a or b\<close> gives \<open>a\<close> when \<open>a\<close> is
  truthy (a non-empty string) and \<open>b\<close> otherwise, whatever \<open>b\<close> is. An f-string
  field prints \<open>None\<close> as the word None.
\<close>

definition truthy :: "pystr option \<Rightarrow> bool" where
  "truthy v = (case v of None \<Rightarrow> False | Some s \<Rightarrow> s \<noteq> [])"

definition py_or :: "pystr option \<Rightarrow> pystr option \<Rightarrow> pystr option" where
  "py_or a b = (if truthy a then a else b)"

definition py_format :: "pystr option \<Rightarrow> pystr" where
  "py_format v = (case v of None \<Rightarrow> str ''None'' | Some s \<Rightarrow> s)"

text \<open>
  The message of line 15, an f-string with Chinese text around three fields: the
  path, \<open>env_key[5:].lower()\<close> and \<open>env_key\<close>.
\<close>

definition resolve_path_message :: "world \<Rightarrow> pystr option \<Rightarrow> pystr \<Rightarrow> pystr" where
  "resolve_path_message w path env_key =
     [0x6587, 0x4EF6, 0x4E0D, 0x5B58, 0x5728, 0xFF1A] @ py_format path @
     [0xFF08, 0x53EF, 0x7528] @ str '' --'' @ str_lower w (drop 5 env_key) @
     str '' '' @ [0x6216, 0x8BBE, 0x7F6E, 0x73AF, 0x5883, 0x53D8, 0x91CF] @ str '' '' @
     env_key @ [0xFF09]"

definition selected :: "world \<Rightarrow> pystr option \<Rightarrow> pystr \<Rightarrow> pystr option \<Rightarrow> pystr option" where
  "selected w cli_value env_key default_value =
     py_or cli_value (py_or (environ w env_key) default_value)"

definition resolve_path :: "world \<Rightarrow> pystr option \<Rightarrow> pystr \<Rightarrow> pystr option \<Rightarrow> exc + pystr" where
  "resolve_path w cli_value env_key default_value =
     (let path = selected w cli_value env_key default_value in
      case path of
        None \<Rightarrow> Inl (Exc FileNotFoundError (resolve_path_message w path env_key))
      | Some p \<Rightarrow>
          if p = [] \<or> \<not> isfile w p
          then Inl (Exc FileNotFoundError (resolve_path_message w path env_key))
          else Inr p)"

section \<open>probe_diag.py\<close>

text \<open>
  What the prober sees of the interpreter: the runtime strings, \<open>os.getenv\<close>, what
  \<open>__import__(name)\<close> gives (a module, of which the prober reads \<open>__version__\<close>, or
  the exception raised), what loading the spaCy pipeline and tagging the fixed
  sentence gives (the printed list of pairs, or the exception raised on the way), and
  what \<open>from tensorboardX import SummaryWriter\<close> followed by \<open>callable\<close> gives.
\<close>

record pymodule =
  version :: "pystr option"

record interp =
  sys_executable :: pystr
  sys_version :: pystr
  platform_platform :: pystr
  getenv :: "pystr \<rightharpoonup> pystr"
  import_module :: "pystr \<Rightarrow> exc + pymodule"
  spacy_tagged :: "exc + pystr"
  summary_writer_callable :: "exc + bool"

definition safe_import :: "interp \<Rightarrow> pystr \<Rightarrow> exc + (pymodule option \<times> pystr option)" where
  "safe_import I name =
     (case import_module I name of
        Inr m \<Rightarrow> Inr (Some m, None)
      | Inl e \<Rightarrow> if isinstance e Exception then Inr (None, Some (msg e)) else Inl e)"

text \<open>\<open>"{:<45} {}".format(k, v)\<close>: \<open>k\<close> padded on the right to 45 characters.\<close>

definition print_kv :: "pystr \<Rightarrow> pystr \<Rightarrow> pystr" where
  "print_kv k v = k @ replicate (45 - length k) 0x20 @ str '' '' @ v"

definition py_bool :: "bool \<Rightarrow> pystr" where
  "py_bool b = (if b then str ''True'' else str ''False'')"

definition spaCy_smoke :: "interp \<Rightarrow> pymodule option \<Rightarrow> exc + pystr" where
  "spaCy_smoke I spacy =
     (case (case spacy of
              None \<Rightarrow> Inl (Exc RuntimeError (str ''spacy not installed''))
            | Some m \<Rightarrow> spacy_tagged I) of
        Inr pairs \<Rightarrow> Inr (print_kv (str ''SPACY SMOKE'') (str ''OK -> '' @ pairs))
      | Inl e \<Rightarrow>
          if isinstance e Exception
          then Inr (print_kv (str ''SPACY SMOKE'') (str ''FAILED -> '' @ msg e))
          else Inl e)"

definition tbx_smoke :: "interp \<Rightarrow> pymodule option \<Rightarrow> exc + pystr" where
  "tbx_smoke I tbx =
     (case (case tbx of
              None \<Rightarrow> Inl (Exc RuntimeError (str ''tensorboardX not installed''))
            | Some m \<Rightarrow> summary_writer_callable I) of
        Inr c \<Rightarrow>
          Inr (print_kv (str ''TENSORBOARDX SMOKE'')
                 (str ''OK; SummaryWriter available = '' @ py_bool c))
      | Inl e \<Rightarrow>
          if isinstance e Exception
          then Inr (print_kv (str ''TENSORBOARDX SMOKE'') (str ''FAILED -> '' @ msg e))
          else Inl e)"

text \<open>
  The status of one package:
  \<open>getattr(m, "__version__", "N/A") if m else "NOT INSTALLED ({})".format(err)\<close>.
\<close>

definition package_status :: "pymodule option \<times> pystr option \<Rightarrow> pystr" where
  "package_status r =
     (case fst r of
        Some m \<Rightarrow> (case version m of Some v \<Rightarrow> v | None \<Rightarrow> str ''N/A'')
      | None \<Rightarrow> str ''NOT INSTALLED ('' @ py_format (snd r) @ str '')'')"

definition rule60 :: pystr where
  "rule60 = replicate 60 0x3D"

definition packages :: "pystr list" where
  "packages = [str ''google.protobuf'', str ''spacy'', str ''torch'', str ''gensim'',
     str ''tensorboardX'', str ''lmdb'', str ''sciwing'']"

definition labels :: "pystr list" where
  "labels = [str ''protobuf'', str ''spacy'', str ''torch'', str ''gensim'',
     str ''tensorboardX'', str ''lmdb'', str ''sciwing'']"

text \<open>The lines printed before the first import.\<close>

definition probe_head :: "interp \<Rightarrow> pystr list" where
  "probe_head I =
     [rule60, str ''RUNTIME'', rule60,
      print_kv (str ''python_executable'') (sys_executable I),
      print_kv (str ''python_version'') (str_replace [0x0A] (str '' '') None (sys_version I)),
      print_kv (str ''platform'') (platform_platform I),
      0x0A # rule60, str ''ENV VARS'', rule60,
      print_kv (str ''SCIWING_LITE'') (py_format (getenv I (str ''SCIWING_LITE''))),
      print_kv (str ''PROTOCOL_BUFFERS_PYTHON_IMPLEMENTATION'')
        (py_format (getenv I (str ''PROTOCOL_BUFFERS_PYTHON_IMPLEMENTATION''))),
      0x0A # rule60, str ''PACKAGES'', rule60]"

text \<open>
  \<open>main\<close> of probe_diag.py: the lines printed, and the exception that ended the run if
  one escaped. The seven imports come first, in the order of the source, then the
  seven status lines, then the two smoke tests.
\<close>

definition probe_diag_main :: "interp \<Rightarrow> pystr list \<times> exc option" where
  "probe_diag_main I =
     (let out0 = probe_head I in
      case safe_import I (str ''google.protobuf'') of Inl e \<Rightarrow> (out0, Some e) | Inr pb \<Rightarrow>
      case safe_import I (str ''spacy'') of Inl e \<Rightarrow> (out0, Some e) | Inr spacy \<Rightarrow>
      case safe_import I (str ''torch'') of Inl e \<Rightarrow> (out0, Some e) | Inr torch \<Rightarrow>
      case safe_import I (str ''gensim'') of Inl e \<Rightarrow> (out0, Some e) | Inr gensim \<Rightarrow>
      case safe_import I (str ''tensorboardX'') of Inl e \<Rightarrow> (out0, Some e) | Inr tbx \<Rightarrow>
      case safe_import I (str ''lmdb'') of Inl e \<Rightarrow> (out0, Some e) | Inr lmdb \<Rightarrow>
      case safe_import I (str ''sciwing'') of Inl e \<Rightarrow> (out0, Some e) | Inr sciwing \<Rightarrow>
      let out1 = out0 @
        [print_kv (str ''protobuf'') (package_status pb),
         print_kv (str ''spacy'') (package_status spacy),
         print_kv (str ''torch'') (package_status torch),
         print_kv (str ''gensim'') (package_status gensim),
         print_kv (str ''tensorboardX'') (package_status tbx),
         print_kv (str ''lmdb'') (package_status lmdb),
         print_kv (str ''sciwing'') (package_status sciwing),
         0x0A # rule60, str ''SMOKE TESTS'', rule60] in
      case spaCy_smoke I (fst spacy) of Inl e \<Rightarrow> (out1, Some e) | Inr l1 \<Rightarrow>
      case tbx_smoke I (fst tbx) of Inl e \<Rightarrow> (out1 @ [l1], Some e) | Inr l2 \<Rightarrow>
      (out1 @ [l1, l2, 0x0A # rule60, str ''DONE'', rule60], None))"

section \<open>Example machines\<close>

text \<open>
  \<open>ascii_lower\<close> is \<open>str.lower\<close> on ASCII text. \<open>bare_world\<close> has no file and no
  environment variable; \<open>stale_env_world\<close> has \<open>ELMO_OPTIONS\<close> set to a path that is
  not there, \<open>ELMO_WEIGHTS\<close> set to a file that is, and a default file.
\<close>

definition ascii_lower :: "pystr \<Rightarrow> pystr" where
  "ascii_lower s = map (\<lambda>c. if 0x41 \<le> c \<and> c \<le> 0x5A then c + 32 else c) s"

definition bare_world :: "platform \<Rightarrow> world" where
  "bare_world p =
     \<lparr>plat = p, environ = Map.empty, fs = Map.empty, str_lower = ascii_lower, log = []\<rparr>"

definition stale_env_world :: world where
  "stale_env_world = (bare_world Windows)
     \<lparr>environ := [str ''ELMO_OPTIONS'' \<mapsto> str ''/missing.json'',
                 str ''ELMO_WEIGHTS'' \<mapsto> str ''/weights.hdf5''],
      fs := [str ''/default.json'' \<mapsto> File [], str ''/weights.hdf5'' \<mapsto> File []]\<rparr>"

section \<open>Statement of the prober's isolation\<close>

text \<open>
  An outcome is caught by \<open>except Exception\<close> when it is a value or an exception that
  is an instance of \<open>Exception\<close>. \<open>imported\<close> is the module an import gave, if it
  gave one. \<open>expected_status\<close> is the status a package is due: its version, \<open>N/A\<close>
  when it has none, or \<open>NOT INSTALLED\<close> with the message of the exception its import
  raised. \<open>report_of_packages\<close> is the report up to the heading of the smoke tests, with
  the seven status lines in the order of the source. \<open>expected_spacy_smoke\<close> and
  \<open>expected_tbx_smoke\<close> are what the two smoke lines are due to say.
\<close>

definition raises_only_Exception :: "exc + 'a \<Rightarrow> bool" where
  "raises_only_Exception r = (case r of Inl e \<Rightarrow> isinstance e Exception | Inr v \<Rightarrow> True)"

definition imported :: "interp \<Rightarrow> pystr \<Rightarrow> pymodule option" where
  "imported I name = (case import_module I name of Inr m \<Rightarrow> Some m | Inl e \<Rightarrow> None)"

definition expected_status :: "interp \<Rightarrow> pystr \<Rightarrow> pystr" where
  "expected_status I name =
     (case import_module I name of
        Inr m \<Rightarrow> (case version m of Some v \<Rightarrow> v | None \<Rightarrow> str ''N/A'')
      | Inl e \<Rightarrow> str ''NOT INSTALLED ('' @ msg e @ str '')'')"

definition report_of_packages :: "interp \<Rightarrow> pystr list" where
  "report_of_packages I =
     probe_head I @
     map2 (\<lambda>l n. print_kv l (expected_status I n)) labels packages @
     [0x0A # rule60, str ''SMOKE TESTS'', rule60]"

definition expected_spacy_smoke :: "interp \<Rightarrow> pystr" where
  "expected_spacy_smoke I =
     (case imported I (str ''spacy'') of
        None \<Rightarrow> str ''FAILED -> '' @ str ''spacy not installed''
      | Some m \<Rightarrow>
          (case spacy_tagged I of
             Inr pairs \<Rightarrow> str ''OK -> '' @ pairs
           | Inl e \<Rightarrow> str ''FAILED -> '' @ msg e))"

definition expected_tbx_smoke :: "interp \<Rightarrow> pystr" where
  "expected_tbx_smoke I =
     (case imported I (str ''tensorboardX'') of
        None \<Rightarrow> str ''FAILED -> '' @ str ''tensorboardX not installed''
      | Some m \<Rightarrow>
          (case summary_writer_callable I of
             Inr c \<Rightarrow> str ''OK; SummaryWriter available = '' @ py_bool c
           | Inl e \<Rightarrow> str ''FAILED -> '' @ msg e))"

text \<open>
  Three interpreters. In \<open>partly_installed\<close> \<open>spacy\<close>, \<open>torch\<close> and
  \<open>tensorboardX\<close> can be imported and the other four packages are missing, the
  spaCy pipeline cannot be loaded (an \<open>OSError\<close>), and \<open>SummaryWriter\<close> is there.
  \<open>gensim_exits\<close> is the same but for \<open>gensim\<close>, whose import calls \<open>sys.exit\<close>;
  \<open>spacy_interrupted\<close> is the same but for the spaCy pipeline, whose loading is
  interrupted from the keyboard.
\<close>

definition partly_installed :: interp where
  "partly_installed =
     \<lparr>sys_executable = str ''python'', sys_version = str ''3.7.0'',
      platform_platform = str ''Windows-10'', getenv = Map.empty,
      import_module = (\<lambda>name.
         if name = str ''torch'' then Inr \<lparr>version = Some (str ''1.1.0'')\<rparr>
         else if name = str ''spacy'' then Inr \<lparr>version = Some (str ''2.1.8'')\<rparr>
         else if name = str ''tensorboardX'' then Inr \<lparr>version = None\<rparr>
         else Inl (Exc ModuleNotFoundError (str ''No module named '' @ name))),
      spacy_tagged = Inl (Exc OSError (str ''no model'')),
      summary_writer_callable = Inr True\<rparr>"

definition gensim_exits :: interp where
  "gensim_exits = partly_installed
     \<lparr>import_module := (\<lambda>name.
         if name = str ''gensim'' then Inl (Exc SystemExit (str ''1''))
         else import_module partly_installed name)\<rparr>"

definition spacy_interrupted :: interp where
  "spacy_interrupted = partly_installed\<lparr>spacy_tagged := Inl (Exc KeyboardInterrupt [])\<rparr>"

section \<open>Files as text: the UTF-8 codec and newline translation\<close>

text \<open>
  \<open>bytes.decode("utf-8", errors="ignore")\<close> on the octets as numbers. A byte that
  cannot start a character is skipped; a lead byte whose continuation is wrong is
  skipped together with the continuation bytes accepted so far, and decoding goes on at
  the offending byte; a sequence cut off by the end of the data is skipped.
  \<open>valid_second\<close> is the check of the second byte: a continuation byte that does not
  make an overlong form (after \<open>0xE0\<close>, \<open>0xF0\<close>), a surrogate (after \<open>0xED\<close>) or a
  value above \<open>0x10FFFF\<close> (after \<open>0xF4\<close>).
\<close>

definition is_continuation :: "nat \<Rightarrow> bool" where
  "is_continuation b = (0x80 \<le> b \<and> b < 0xC0)"

definition valid_second :: "nat \<Rightarrow> nat \<Rightarrow> bool" where
  "valid_second b0 b1 =
     (is_continuation b1 \<and> \<not> (b0 = 0xE0 \<and> b1 < 0xA0) \<and> \<not> (b0 = 0xED \<and> 0xA0 \<le> b1) \<and>
      \<not> (b0 = 0xF0 \<and> b1 < 0x90) \<and> \<not> (b0 = 0xF4 \<and> 0x90 \<le> b1))"

fun utf8_decode_ignore :: "nat list \<Rightarrow> pystr" where
  "utf8_decode_ignore [] = []"
| "utf8_decode_ignore (b0 # r0) =
     (if b0 < 0x80 then b0 # utf8_decode_ignore r0
      else if b0 < 0xC2 then utf8_decode_ignore r0
      else if b0 < 0xE0 then
        (case r0 of
           [] \<Rightarrow> []
         | b1 # r1 \<Rightarrow>
             if is_continuation b1
             then ((b0 - 0xC0) * 64 + (b1 - 0x80)) # utf8_decode_ignore r1
             else utf8_decode_ignore r0)
      else if b0 < 0xF0 then
        (case r0 of
           [] \<Rightarrow> []
         | b1 # r1 \<Rightarrow>
             if \<not> valid_second b0 b1 then utf8_decode_ignore r0
             else
               (case r1 of
                  [] \<Rightarrow> []
                | b2 # r2 \<Rightarrow>
                    if is_continuation b2
                    then ((b0 - 0xE0) * 4096 + (b1 - 0x80) * 64 + (b2 - 0x80))
                           # utf8_decode_ignore r2
                    else utf8_decode_ignore r1))
      else if b0 < 0xF5 then
        (case r0 of
           [] \<Rightarrow> []
         | b1 # r1 \<Rightarrow>
             if \<not> valid_second b0 b1 then utf8_decode_ignore r0
             else
               (case r1 of
                  [] \<Rightarrow> []
                | b2 # r2 \<Rightarrow>
                    if \<not> is_continuation b2 then utf8_decode_ignore r1
                    else
                      (case r2 of
                         [] \<Rightarrow> []
                       | b3 # r3 \<Rightarrow>
                           if is_continuation b3
                           then ((b0 - 0xF0) * 262144 + (b1 - 0x80) * 4096 +
                                 (b2 - 0x80) * 64 + (b3 - 0x80)) # utf8_decode_ignore r3
                           else utf8_decode_ignore r2)))
      else utf8_decode_ignore r0)"

text \<open>
  \<open>str.encode("utf-8")\<close>, strict: a surrogate raises \<open>UnicodeEncodeError\<close>
  (\<open>None\<close> here). A number from \<open>0x110000\<close> on is no code point of a \<open>str\<close>; it
  is refused as well.
\<close>

definition utf8_encode_char :: "nat \<Rightarrow> nat list option" where
  "utf8_encode_char c =
     (if c < 0x80 then Some [c]
      else if c < 0x800 then Some [0xC0 + c div 64, 0x80 + c mod 64]
      else if c < 0x10000 then
        (if 0xD800 \<le> c \<and> c < 0xE000 then None
         else Some [0xE0 + c div 4096, 0x80 + c div 64 mod 64, 0x80 + c mod 64])
      else if c < 0x110000 then
        Some [0xF0 + c div 262144, 0x80 + c div 4096 mod 64, 0x80 + c div 64 mod 64,
              0x80 + c mod 64]
      else None)"

fun utf8_encode :: "pystr \<Rightarrow> nat list option" where
  "utf8_encode [] = Some []"
| "utf8_encode (c # cs) =
     (case utf8_encode_char c of
        None \<Rightarrow> None
      | Some b \<Rightarrow> (case utf8_encode cs of None \<Rightarrow> None | Some bs \<Rightarrow> Some (b @ bs)))"

text \<open>
  Text mode with the default \<open>newline=None\<close>. Reading turns \<open>\r\n\<close> and a lone
  \<open>\r\<close> into \<open>\n\<close>; writing turns each \<open>\n\<close> into \<open>os.linesep\<close>.
\<close>

fun universal_newlines :: "pystr \<Rightarrow> pystr" where
  "universal_newlines [] = []"
| "universal_newlines (c # cs) =
     (if c = 0x0D then
        (case cs of
           [] \<Rightarrow> [0x0A]
         | d # ds \<Rightarrow> if d = 0x0A then 0x0A # universal_newlines ds
                     else 0x0A # universal_newlines cs)
      else c # universal_newlines cs)"

definition os_linesep :: "platform \<Rightarrow> pystr" where
  "os_linesep p = (case p of Windows \<Rightarrow> [0x0D, 0x0A] | Posix \<Rightarrow> [0x0A])"

definition translate_newlines :: "pystr \<Rightarrow> pystr \<Rightarrow> pystr" where
  "translate_newlines linesep s = concat (map (\<lambda>c. if c = 0x0A then linesep else [c]) s)"

text \<open>
  What opening a directory as a file raises: \<open>PermissionError\<close> on Windows,
  \<open>IsADirectoryError\<close> elsewhere. The messages of the operating system's errors are
  given without the path.
\<close>

definition open_directory_error :: "platform \<Rightarrow> exc" where
  "open_directory_error p =
     (case p of
        Windows \<Rightarrow> Exc PermissionError (str ''[Errno 13] Permission denied'')
      | Posix \<Rightarrow> Exc IsADirectoryError (str ''[Errno 21] Is a directory''))"

text \<open>
  The text a file's bytes are read as (\<open>encoding="utf-8", errors="ignore"\<close>), and the
  bytes a text is written as (\<open>encoding="utf-8"\<close>), if it can be encoded.
\<close>

definition decode_file :: "pybytes \<Rightarrow> pystr" where
  "decode_file b = universal_newlines (utf8_decode_ignore (map unat b))"

definition encode_file :: "platform \<Rightarrow> pystr \<Rightarrow> pybytes option" where
  "encode_file p data =
     (case utf8_encode (translate_newlines (os_linesep p) data) of
        None \<Rightarrow> None
      | Some b \<Rightarrow> Some (map of_nat b))"

text \<open>\<open>Path.read_text(encoding="utf-8", errors="ignore")\<close>.\<close>

definition read_text :: "world \<Rightarrow> pystr \<Rightarrow> exc + pystr" where
  "read_text w p =
     (case fs w p of
        None \<Rightarrow> Inl (Exc FileNotFoundError (str ''[Errno 2] No such file or directory''))
      | Some Dir \<Rightarrow> Inl (open_directory_error (plat w))
      | Some (File b) \<Rightarrow> Inr (decode_file b))"

text \<open>
  \<open>Path.write_text(data, encoding="utf-8")\<close>: the file is opened for writing, which
  empties it, and the encoded text is written. Every change of a file's content is
  logged. A write to a path that is not a directory succeeds: permissions and full
  disks are outside this model.
\<close>

definition write_text :: "world \<Rightarrow> pystr \<Rightarrow> pystr \<Rightarrow> world \<times> exc option" where
  "write_text w p data =
     (case fs w p of
        Some Dir \<Rightarrow> (w, Some (open_directory_error (plat w)))
      | _ \<Rightarrow>
          (case encode_file (plat w) data of
             None \<Rightarrow>
               (w\<lparr>fs := (fs w)(p \<mapsto> File []), log := log w @ [Wrote p []]\<rparr>,
                Some (Exc UnicodeEncodeError (str ''surrogates not allowed'')))
           | Some b \<Rightarrow>
               (w\<lparr>fs := (fs w)(p \<mapsto> File b), log := log w @ [Wrote p b]\<rparr>, None)))"

section \<open>patch_sectlabel_lite.py\<close>

text \<open>
  The paths, as \<open>pathlib\<close> prints them. \<open>p / name\<close> puts the separator of the
  platform between the two; \<open>with_suffix\<close> replaces what follows the last dot of the
  final component (a dot that is neither its first nor its last character), or appends
  when there is no such dot. Its checks of the new suffix pass for the suffix used here.
\<close>

definition os_sep :: "platform \<Rightarrow> pystr" where
  "os_sep p = (case p of Windows \<Rightarrow> [0x5C] | Posix \<Rightarrow> str ''/'')"

definition is_sep :: "platform \<Rightarrow> nat \<Rightarrow> bool" where
  "is_sep p c = (case p of Windows \<Rightarrow> c = 0x5C \<or> c = 0x2F | Posix \<Rightarrow> c = 0x2F)"

definition joinpath :: "platform \<Rightarrow> pystr \<Rightarrow> pystr \<Rightarrow> pystr" where
  "joinpath p a b = a @ os_sep p @ b"

definition path_name :: "platform \<Rightarrow> pystr \<Rightarrow> pystr" where
  "path_name p a = rev (takeWhile (\<lambda>c. \<not> is_sep p c) (rev a))"

definition path_suffix :: "pystr \<Rightarrow> pystr" where
  "path_suffix name =
     (let ext = rev (takeWhile (\<lambda>c. c \<noteq> 0x2E) (rev name)) in
      if 0x2E \<in> set name \<and> length ext + 1 < length name \<and> ext \<noteq> [] then 0x2E # ext else [])"

definition with_suffix :: "platform \<Rightarrow> pystr \<Rightarrow> pystr \<Rightarrow> pystr" where
  "with_suffix p a suf =
     take (length a - length (path_suffix (path_name p a))) a @ suf"

definition ROOT :: pystr where
  "ROOT = str ''E:'' @ [0x5C] @ str ''programFile'' @ [0x5C] @ str ''AIProgram'' @ [0x5C] @
     str ''docxServer'' @ [0x5C] @ str ''python'' @ [0x5C] @ str ''sciwing''"

definition TARGET :: "platform \<Rightarrow> pystr" where
  "TARGET p =
     joinpath p (joinpath p (joinpath p ROOT (str ''sciwing'')) (str ''models''))
       (str ''sectlabel.py'')"

definition BACKUP :: "platform \<Rightarrow> pystr" where
  "BACKUP p = with_suffix p (TARGET p) (str ''.py.bak_lite'')"

definition sentinel :: pystr where
  "sentinel = str ''from sciwing.modules.embedders.bow_elmo_embedder import BowElmoEmbedder''"

text \<open>The five lines that take the sentinel's place (lines 28 to 32).\<close>

definition replacement_lines :: "pystr list" where
  "replacement_lines =
     [str ''import os\<newline>'',
      str ''if str(os.getenv('SCIWING_LITE','' @ [0x27, 0x27] @
        str '')).lower() in ('1','true','yes','y'):\<newline>'',
      str ''    BowElmoEmbedder = None  # LITE '' @ [0x6A21, 0x5F0F, 0xFF1A, 0x4E0D, 0x89E6, 0x53D1] @
        str '' allennlp '' @ [0x4F9D, 0x8D56, 0x0A],
      str ''else:\<newline>'',
      str ''    from sciwing.modules.embedders.bow_elmo_embedder import BowElmoEmbedder\<newline>'']"

definition replacement :: pystr where
  "replacement = concat replacement_lines"

definition missing_message :: "platform \<Rightarrow> pystr" where
  "missing_message p = [0x627E, 0x4E0D, 0x5230, 0x6587, 0x4EF6] @ str '': '' @ TARGET p"

definition skipped_message :: pystr where
  "skipped_message =
     [0x672A, 0x53D1, 0x73B0, 0x9700, 0x8981, 0x66FF, 0x6362, 0x7684, 0x5BFC, 0x5165, 0x884C,
      0xFF0C, 0x53EF, 0x80FD, 0x6B64, 0x524D, 0x5DF2, 0x8865, 0x4E01, 0x6216, 0x6E90, 0x7801,
      0x7248, 0x672C, 0x4E0D, 0x540C, 0x3002, 0x7565, 0x8FC7, 0x3002]"

definition patched_message :: "platform \<Rightarrow> pystr" where
  "patched_message p =
     [0x5DF2, 0x6253, 0x8865, 0x4E01, 0x5E76, 0x5907, 0x4EFD, 0xFF1A, 0x0A] @ str ''  '' @
     [0x5907, 0x4EFD] @ str '': '' @ BACKUP p @ [0x0A] @ str ''  '' @
     [0x76EE, 0x6807] @ str '': '' @ TARGET p"

text \<open>
  \<open>main\<close> of patch_sectlabel_lite.py: the world it leaves, and the exception that
  ended it, if any.
\<close>

definition patch_main :: "world \<Rightarrow> world \<times> exc option" where
  "patch_main w =
     (if \<not> exists_path w (TARGET (plat w))
      then (w, Some (Exc SystemExit (missing_message (plat w))))
      else
        case read_text w (TARGET (plat w)) of
          Inl e \<Rightarrow> (w, Some e)
        | Inr src \<Rightarrow>
            if \<not> str_contains sentinel src then (print skipped_message w, None)
            else
              let patched = str_replace sentinel replacement (Some 1) src in
              case write_text w (BACKUP (plat w)) src of
                (w1, Some e) \<Rightarrow> (w1, Some e)
              | (w1, None) \<Rightarrow>
                  (case write_text w1 (TARGET (plat w)) patched of
                     (w2, Some e) \<Rightarrow> (w2, Some e)
                   | (w2, None) \<Rightarrow> (print (patched_message (plat w)) w2, None)))"

text \<open>
  The code points a \<open>str\<close> can be encoded from: the Unicode scalar values, that is,
  everything up to \<open>0x10FFFF\<close> but the surrogates.
\<close>

definition scalar :: "nat \<Rightarrow> bool" where
  "scalar c = (c < 0xD800 \<or> (0xE000 \<le> c \<and> c < 0x110000))"

section \<open>Example files for the patcher\<close>

text \<open>
  Three machines with a target file: one that holds the sentinel line and nothing
  else, one that holds the sentinel line followed by the byte \<open>0xFF\<close>, which is not
  UTF-8, and one that holds that byte alone.
\<close>

definition sentinel_only :: "platform \<Rightarrow> world" where
  "sentinel_only p = (bare_world p)\<lparr>fs := [TARGET p \<mapsto> File (map of_nat sentinel)]\<rparr>"

definition stray_byte :: "platform \<Rightarrow> world" where
  "stray_byte p = (bare_world p)\<lparr>fs := [TARGET p \<mapsto> File (map of_nat sentinel @ [0xFF])]\<rparr>"

definition lone_byte :: "platform \<Rightarrow> world" where
  "lone_byte p = (bare_world p)\<lparr>fs := [TARGET p \<mapsto> File [0xFF]]\<rparr>"

text \<open>
  Text that a write followed by a read gives back: it can be encoded, and it holds no
  carriage return for the reader to translate.
\<close>

definition clean_text :: "pystr \<Rightarrow> bool" where
  "clean_text s = (list_all scalar s \<and> list_all (\<lambda>c. c \<noteq> 0x0D) s)"

section \<open>Properties of the tokens\<close>

lemma dropWhile_all: "list_all P s \<Longrightarrow> dropWhile P s = []"
  by (induction s) auto

lemma split_no_empty: "[] \<notin> set (split s)"
proof (induction s rule: split.induct)
  case (1 s)
  show ?case
  proof (cases "dropWhile isspace s")
    case Nil
    show ?thesis by (subst split.simps) (simp add: Nil)
  next
    case (Cons c cs)
    have "[] \<notin> set (split (dropWhile (\<lambda>x. \<not> isspace x) cs))"
      using Cons by (rule "1.IH")
    then show ?thesis by (subst split.simps) (simp add: Cons)
  qed
qed

lemma split_all_space: "list_all isspace s \<Longrightarrow> split s = []"
  by (subst split.simps) (simp add: dropWhile_all)

lemma strip_all_space: "list_all isspace s \<Longrightarrow> strip s = []"
  by (simp add: strip_def dropWhile_all)

lemma takeWhile_all: "list_all P (takeWhile P s)"
  by (induction s) auto

lemma filter_none: "list_all P s \<Longrightarrow> filter (\<lambda>c. \<not> P c) s = []"
  by (induction s) auto

lemma filter_every: "list_all (\<lambda>c. \<not> P c) s \<Longrightarrow> filter (\<lambda>c. \<not> P c) s = s"
  by (induction s) auto

lemma last_dropWhile: "dropWhile P s \<noteq> [] \<Longrightarrow> last (dropWhile P s) = last s"
proof -
  assume h: "dropWhile P s \<noteq> []"
  show ?thesis using h by (metis takeWhile_dropWhile_id last_appendR)
qed

text \<open>\<open>strip\<close> takes whitespace, and only whitespace, from the two ends.\<close>

lemma strip_decompose:
  "s = takeWhile isspace s @ strip s @
       rev (takeWhile isspace (rev (dropWhile isspace s)))"
proof -
  let ?M = "dropWhile isspace s"
  have "rev ?M = takeWhile isspace (rev ?M) @ dropWhile isspace (rev ?M)"
    by (simp only: takeWhile_dropWhile_id)
  then have "rev (rev ?M) = rev (takeWhile isspace (rev ?M) @ dropWhile isspace (rev ?M))"
    by (rule arg_cong)
  then have "?M = rev (dropWhile isspace (rev ?M)) @ rev (takeWhile isspace (rev ?M))"
    by (simp only: rev_rev_ident rev_append)
  then have m: "?M = strip s @ rev (takeWhile isspace (rev ?M))"
    by (simp only: strip_def)
  have "s = takeWhile isspace s @ ?M" by (simp only: takeWhile_dropWhile_id)
  then show ?thesis using m by metis
qed

lemma strip_ends:
  assumes "strip s = c # cs"
  shows "\<not> isspace c" "\<not> isspace (last (c # cs))"
proof -
  let ?M = "dropWhile isspace s"
  let ?D = "dropWhile isspace (rev ?M)"
  have r: "rev ?D = c # cs" using assms by (simp only: strip_def)
  have d: "?D \<noteq> []"
  proof
    assume "?D = []"
    then have "rev ?D = []" by (simp only: rev.simps)
    then show False using r by simp
  qed
  have m: "?M \<noteq> []"
  proof
    assume "?M = []"
    then have "?D = []" by (simp only: rev.simps dropWhile.simps)
    then show False using d by blast
  qed
  have hd_d: "\<not> isspace (hd ?D)" using d by (rule hd_dropWhile)
  have hd_m: "\<not> isspace (hd ?M)" using m by (rule hd_dropWhile)
  have "last (rev ?D) = hd ?D" by (rule last_rev)
  then have "last (c # cs) = hd ?D" using r by metis
  then show "\<not> isspace (last (c # cs))" using hd_d by metis
  have "hd (rev ?D) = last ?D" by (rule hd_rev)
  moreover have "last ?D = last (rev ?M)" using d by (rule last_dropWhile)
  moreover have "last (rev ?M) = hd ?M" by (rule last_rev)
  moreover have "hd (rev ?D) = c" using r by (simp only: list.sel)
  ultimately have "c = hd ?M" by metis
  then show "\<not> isspace c" using hd_m by metis
qed

lemma split_tokens:
  "list_all (\<lambda>t. t \<noteq> [] \<and> list_all (\<lambda>c. \<not> isspace c) t) (split s)"
proof (induction s rule: split.induct)
  case (1 s)
  show ?case
  proof (cases "dropWhile isspace s")
    case Nil
    show ?thesis by (subst split.simps) (simp add: Nil)
  next
    case (Cons c cs)
    have ih: "list_all (\<lambda>t. t \<noteq> [] \<and> list_all (\<lambda>c. \<not> isspace c) t)
        (split (dropWhile (\<lambda>x. \<not> isspace x) cs))"
      using Cons by (rule "1.IH")
    have "dropWhile isspace s \<noteq> []" using Cons by simp
    then have "\<not> isspace (hd (dropWhile isspace s))" by (rule hd_dropWhile)
    then have c: "\<not> isspace c" using Cons by simp
    have t: "list_all (\<lambda>c. \<not> isspace c) (takeWhile (\<lambda>x. \<not> isspace x) cs)"
      by (rule takeWhile_all)
    show ?thesis by (subst split.simps) (simp add: Cons ih c t)
  qed
qed

lemma concat_split: "concat (split s) = filter (\<lambda>c. \<not> isspace c) s"
proof (induction s rule: split.induct)
  case (1 s)
  show ?case
  proof (cases "dropWhile isspace s")
    case Nil
    then have "list_all isspace s" by (simp add: list_all_iff)
    then have "filter (\<lambda>c. \<not> isspace c) s = []" by (rule filter_none)
    then show ?thesis by (subst split.simps) (simp add: Nil)
  next
    case (Cons c cs)
    have ih: "concat (split (dropWhile (\<lambda>x. \<not> isspace x) cs)) =
        filter (\<lambda>c. \<not> isspace c) (dropWhile (\<lambda>x. \<not> isspace x) cs)"
      using Cons by (rule "1.IH")
    have "dropWhile isspace s \<noteq> []" using Cons by simp
    then have "\<not> isspace (hd (dropWhile isspace s))" by (rule hd_dropWhile)
    then have c: "\<not> isspace c" using Cons by simp
    have s: "s = takeWhile isspace s @ c # cs" using Cons by (metis takeWhile_dropWhile_id)
    have f1: "filter (\<lambda>c. \<not> isspace c) (takeWhile isspace s) = []"
      using takeWhile_all by (rule filter_none)
    have f2: "filter (\<lambda>c. \<not> isspace c) (takeWhile (\<lambda>x. \<not> isspace x) cs) =
        takeWhile (\<lambda>x. \<not> isspace x) cs"
      using takeWhile_all by (rule filter_every)
    have "filter (\<lambda>c. \<not> isspace c) cs =
        filter (\<lambda>c. \<not> isspace c)
          (takeWhile (\<lambda>x. \<not> isspace x) cs @ dropWhile (\<lambda>x. \<not> isspace x) cs)"
      by simp
    then have f3: "filter (\<lambda>c. \<not> isspace c) cs =
        takeWhile (\<lambda>x. \<not> isspace x) cs @
        filter (\<lambda>c. \<not> isspace c) (dropWhile (\<lambda>x. \<not> isspace x) cs)"
      using f2 by (simp only: filter_append)
    have "filter (\<lambda>c. \<not> isspace c) (takeWhile isspace s @ c # cs) =
        c # filter (\<lambda>c. \<not> isspace c) cs"
      using f1 c by simp
    then have "filter (\<lambda>c. \<not> isspace c) s = c # filter (\<lambda>c. \<not> isspace c) cs"
      by (simp only: s [symmetric])
    then show ?thesis using f3 ih by (subst split.simps) (simp add: Cons)
  qed
qed

lemma filter_strip: "filter (\<lambda>c. \<not> isspace c) (strip s) = filter (\<lambda>c. \<not> isspace c) s"
proof -
  have a: "filter (\<lambda>c. \<not> isspace c) (takeWhile isspace s) = []"
    using takeWhile_all by (rule filter_none)
  have "list_all isspace (rev (takeWhile isspace (rev (dropWhile isspace s))))"
    using takeWhile_all [of isspace "rev (dropWhile isspace s)"] by (simp add: list_all_iff)
  then have b: "filter (\<lambda>c. \<not> isspace c) (rev (takeWhile isspace (rev (dropWhile isspace s)))) = []"
    by (rule filter_none)
  have "filter (\<lambda>c. \<not> isspace c) s =
      filter (\<lambda>c. \<not> isspace c) (takeWhile isspace s @ strip s @
       rev (takeWhile isspace (rev (dropWhile isspace s))))"
    using strip_decompose [of s] by (rule arg_cong)
  then show ?thesis using a b by (simp only: filter_append append_Nil append_Nil2)
qed

lemma isspace_str_blank: "list_all isspace (str '' '')"
  by (simp add: str_def isspace_def)

text \<open>
  C10. The tokens are \<open>split\<close> applied to the stripped text. Stripping takes
  whitespace, and nothing else, from the two ends: what is left is empty or begins and
  ends with a character that is not whitespace. No token is empty, no token holds
  whitespace, and the tokens together are the characters of the text that are not
  whitespace, in order. A text that is empty or all whitespace gives the empty token
  list (tokenizing is a total function: it raises nothing).
\<close>

theorem C10_tokens_no_empty_token:
  "run_once_tokens text = split (strip text) \<and>
   (\<exists>a b. text = a @ strip text @ b \<and> list_all isspace a \<and> list_all isspace b) \<and>
   (case strip text of [] \<Rightarrow> True | c # cs \<Rightarrow> \<not> isspace c \<and> \<not> isspace (last (c # cs))) \<and>
   [] \<notin> set (run_once_tokens text) \<and>
   list_all (\<lambda>t. t \<noteq> [] \<and> list_all (\<lambda>c. \<not> isspace c) t) (run_once_tokens text) \<and>
   concat (run_once_tokens text) = filter (\<lambda>c. \<not> isspace c) text \<and>
   run_once_tokens [] = [] \<and>
   (list_all isspace text \<longrightarrow> run_once_tokens text = [])"
proof (intro conjI impI)
  show "run_once_tokens text = split (strip text)" by (simp add: run_once_tokens_def)
next
  have "list_all isspace (takeWhile isspace text)" by (rule takeWhile_all)
  moreover have "list_all isspace (rev (takeWhile isspace (rev (dropWhile isspace text))))"
    using takeWhile_all [of isspace "rev (dropWhile isspace text)"] by (simp add: list_all_iff)
  ultimately show "\<exists>a b. text = a @ strip text @ b \<and> list_all isspace a \<and> list_all isspace b"
    using strip_decompose [of "text"] by blast
next
  show "case strip text of [] \<Rightarrow> True | c # cs \<Rightarrow> \<not> isspace c \<and> \<not> isspace (last (c # cs))"
  proof (cases "strip text")
    case Nil
    then show ?thesis by simp
  next
    case (Cons c cs)
    then show ?thesis using strip_ends [OF Cons] by simp
  qed
next
  show "[] \<notin> set (run_once_tokens text)" by (simp add: run_once_tokens_def split_no_empty)
next
  show "list_all (\<lambda>t. t \<noteq> [] \<and> list_all (\<lambda>c. \<not> isspace c) t) (run_once_tokens text)"
    unfolding run_once_tokens_def by (rule split_tokens)
next
  show "concat (run_once_tokens text) = filter (\<lambda>c. \<not> isspace c) text"
    by (simp add: run_once_tokens_def concat_split filter_strip)
next
  show "run_once_tokens [] = []"
    by (simp add: run_once_tokens_def strip_all_space split_all_space)
next
  assume "list_all isspace text"
  then show "run_once_tokens text = []"
    by (simp add: run_once_tokens_def strip_all_space split_all_space)
qed

lemma strip_example: "strip (str ''  Calzolari , N.  '') = str ''Calzolari , N.''"
  by (simp add: strip_def str_def isspace_def)

lemma split_example:
  "split (str ''Calzolari , N.'') = [str ''Calzolari'', str '','', str ''N.'']"
  by (simp add: split.simps str_def isspace_def)

theorem C10_tokens_no_empty_token_witness:
  "list_all isspace (str '' '') \<and> run_once_tokens (str '' '') = [] \<and>
   strip (str ''  Calzolari , N.  '') = str ''Calzolari , N.'' \<and>
   run_once_tokens (str ''  Calzolari , N.  '') = [str ''Calzolari'', str '','', str ''N.''] \<and>
   [] \<notin> set [str ''Calzolari'', str '','', str ''N.'']"
proof -
  have "run_once_tokens (str ''  Calzolari , N.  '') = split (strip (str ''  Calzolari , N.  ''))"
    and n: "[] \<notin> set (run_once_tokens (str ''  Calzolari , N.  ''))"
    using C10_tokens_no_empty_token [of "str ''  Calzolari , N.  ''"] by blast+
  then have t: "run_once_tokens (str ''  Calzolari , N.  '') =
      [str ''Calzolari'', str '','', str ''N.'']"
    by (simp only: strip_example split_example)
  show ?thesis
    using C10_tokens_no_empty_token [of "str '' ''"] isspace_str_blank strip_example t n
    by metis
qed

section \<open>Properties of strings\<close>

lemma str_contains_iff: "str_contains sub s \<longleftrightarrow> (\<exists>pre post. s = pre @ sub @ post)"
proof (induction s)
  case Nil
  then show ?case by auto
next
  case (Cons c cs)
  show ?case
  proof
    assume "str_contains sub (c # cs)"
    then consider "prefix sub (c # cs)" | "str_contains sub cs" by auto
    then show "\<exists>pre post. c # cs = pre @ sub @ post"
    proof cases
      case 1
      then obtain post where "c # cs = sub @ post" by (auto simp: prefix_def)
      then have "c # cs = [] @ sub @ post" by simp
      then show ?thesis by blast
    next
      case 2
      then obtain pre post where "cs = pre @ sub @ post" using Cons.IH by blast
      then have "c # cs = (c # pre) @ sub @ post" by simp
      then show ?thesis by blast
    qed
  next
    assume "\<exists>pre post. c # cs = pre @ sub @ post"
    then obtain pre post where h: "c # cs = pre @ sub @ post" by blast
    show "str_contains sub (c # cs)"
    proof (cases pre)
      case Nil
      then have "prefix sub (c # cs)" using h by (simp add: prefix_def)
      then show ?thesis by simp
    next
      case (Cons p ps)
      then have "cs = ps @ sub @ post" using h by simp
      then have "str_contains sub cs" using Cons.IH by blast
      then show ?thesis by simp
    qed
  qed
qed

lemma str_containsI: "s = pre @ sub @ post \<Longrightarrow> str_contains sub s"
  unfolding str_contains_iff by blast

section \<open>Properties of \<open>resolve_path\<close>\<close>

text \<open>
  C4, as the code has it. An explicit value that names an existing file is returned,
  whatever the environment and the default hold. With no explicit value (absent or
  empty), the value of the environment variable is returned when it names an existing
  file. The default is returned, when it names an existing file, only if the explicit
  value and the environment variable are both absent or empty: a value that is present
  is the candidate even when no file is there, and the call then fails.
\<close>

theorem C4_resolve_precedence:
  "(cli = Some p \<and> isfile w p \<longrightarrow> resolve_path w cli k d = Inr p) \<and>
   (\<not> truthy cli \<and> environ w k = Some e \<and> isfile w e \<longrightarrow> resolve_path w cli k d = Inr e) \<and>
   (\<not> truthy cli \<and> \<not> truthy (environ w k) \<and> d = Some q \<and> isfile w q \<longrightarrow>
      resolve_path w cli k d = Inr q)"
  by (auto simp: resolve_path_def selected_def py_or_def truthy_def isfile_def Let_def
      split: option.splits)

theorem C4_resolve_precedence_witness:
  "isfile stale_env_world (str ''/default.json'') \<and>
   resolve_path stale_env_world (Some (str ''/default.json'')) (str ''ELMO_OPTIONS'') None
     = Inr (str ''/default.json'') \<and>
   \<not> truthy None \<and>
   environ stale_env_world (str ''ELMO_WEIGHTS'') = Some (str ''/weights.hdf5'') \<and>
   isfile stale_env_world (str ''/weights.hdf5'') \<and>
   resolve_path stale_env_world None (str ''ELMO_WEIGHTS'') (Some (str ''/default.json''))
     = Inr (str ''/weights.hdf5'') \<and>
   \<not> truthy (environ stale_env_world (str ''ELMO_HOME'')) \<and>
   resolve_path stale_env_world None (str ''ELMO_HOME'') (Some (str ''/default.json''))
     = Inr (str ''/default.json'')"
proof -
  have f: "isfile stale_env_world (str ''/default.json'')"
    by (simp add: isfile_def stale_env_world_def bare_world_def str_def)
  have g: "isfile stale_env_world (str ''/weights.hdf5'')"
    by (simp add: isfile_def stale_env_world_def bare_world_def str_def)
  have t: "\<not> truthy None" by (simp add: truthy_def)
  have v: "environ stale_env_world (str ''ELMO_WEIGHTS'') = Some (str ''/weights.hdf5'')"
    by (simp add: stale_env_world_def bare_world_def str_def)
  have e: "\<not> truthy (environ stale_env_world (str ''ELMO_HOME''))"
    by (simp add: truthy_def stale_env_world_def bare_world_def str_def)
  show ?thesis
    using f g t v e
      C4_resolve_precedence [of "Some (str ''/default.json'')" "str ''/default.json''"
        stale_env_world "str ''ELMO_OPTIONS''" None "[]" "[]"]
      C4_resolve_precedence [of None "[]" stale_env_world "str ''ELMO_WEIGHTS''"
        "Some (str ''/default.json'')" "str ''/weights.hdf5''" "[]"]
      C4_resolve_precedence [of None "[]" stale_env_world "str ''ELMO_HOME''"
        "Some (str ''/default.json'')" "[]" "str ''/default.json''"]
    by blast
qed

text \<open>
  The claim as written fails where the environment variable is set to a path with no
  file behind it: the explicit value is absent, the default names an existing file, and
  the call does not return the default.
\<close>

theorem C4_counterexample:
  "\<not> truthy None \<and> \<not> isfile stale_env_world (str ''/missing.json'') \<and>
   isfile stale_env_world (str ''/default.json'') \<and>
   resolve_path stale_env_world None (str ''ELMO_OPTIONS'') (Some (str ''/default.json''))
     \<noteq> Inr (str ''/default.json'')"
  by (simp add: resolve_path_def selected_def py_or_def truthy_def isfile_def Let_def
      stale_env_world_def bare_world_def str_def)

lemma message_has_path:
  "str_contains (py_format path) (resolve_path_message w path k)"
  by (rule str_containsI [where pre = "[0x6587, 0x4EF6, 0x4E0D, 0x5B58, 0x5728, 0xFF1A]"])
     (simp add: resolve_path_message_def)

lemma message_has_env_key:
  "str_contains k (resolve_path_message w path k)"
  by (rule str_containsI [where post = "[0xFF09]"]) (simp add: resolve_path_message_def)

lemma resolve_path_fails:
  assumes "\<not> truthy (selected w cli k d) \<or> \<not> isfile w (py_format (selected w cli k d))"
  shows "resolve_path w cli k d =
     Inl (Exc FileNotFoundError (resolve_path_message w (selected w cli k d) k))"
  using assms
  by (auto simp: resolve_path_def Let_def truthy_def py_format_def split: option.splits)

text \<open>
  C6. When the selected candidate is \<open>None\<close>, empty or not an existing regular file,
  \<open>resolve_path\<close> raises \<open>FileNotFoundError\<close>, and the message holds the attempted
  path and the name of the environment variable. In particular, with \<open>ELMO_OPTIONS\<close>
  unset and no file at \<open>/bad/path\<close>, resolving \<open>(None, ELMO_OPTIONS, /bad/path)\<close>
  fails with a message that holds \<open>/bad/path\<close>.
\<close>

theorem C6_resolve_fails_with_path_and_hint:
  "(\<not> truthy (selected w cli k d) \<or> \<not> isfile w (py_format (selected w cli k d)) \<longrightarrow>
      resolve_path w cli k d =
        Inl (Exc FileNotFoundError (resolve_path_message w (selected w cli k d) k)) \<and>
      isinstance (Exc FileNotFoundError (resolve_path_message w (selected w cli k d) k))
        FileNotFoundError \<and>
      str_contains (py_format (selected w cli k d))
        (resolve_path_message w (selected w cli k d) k) \<and>
      str_contains k (resolve_path_message w (selected w cli k d) k)) \<and>
   (environ w (str ''ELMO_OPTIONS'') = None \<and> \<not> isfile w (str ''/bad/path'') \<longrightarrow>
      resolve_path w None (str ''ELMO_OPTIONS'') (Some (str ''/bad/path'')) =
        Inl (Exc FileNotFoundError
          (resolve_path_message w (Some (str ''/bad/path'')) (str ''ELMO_OPTIONS''))) \<and>
      str_contains (str ''/bad/path'')
        (resolve_path_message w (Some (str ''/bad/path'')) (str ''ELMO_OPTIONS'')))"
proof (intro conjI impI)
  assume h: "\<not> truthy (selected w cli k d) \<or> \<not> isfile w (py_format (selected w cli k d))"
  then show "resolve_path w cli k d =
     Inl (Exc FileNotFoundError (resolve_path_message w (selected w cli k d) k))"
    by (rule resolve_path_fails)
next
  show "isinstance (Exc FileNotFoundError (resolve_path_message w (selected w cli k d) k))
        FileNotFoundError"
    by (simp add: isinstance_def)
next
  show "str_contains (py_format (selected w cli k d))
        (resolve_path_message w (selected w cli k d) k)"
    by (rule message_has_path)
next
  show "str_contains k (resolve_path_message w (selected w cli k d) k)"
    by (rule message_has_env_key)
next
  assume h: "environ w (str ''ELMO_OPTIONS'') = None \<and> \<not> isfile w (str ''/bad/path'')"
  then have s: "selected w None (str ''ELMO_OPTIONS'') (Some (str ''/bad/path''))
      = Some (str ''/bad/path'')"
    by (simp add: selected_def py_or_def truthy_def)
  have "\<not> isfile w (py_format (selected w None (str ''ELMO_OPTIONS'') (Some (str ''/bad/path''))))"
    using h by (simp add: s py_format_def)
  then show "resolve_path w None (str ''ELMO_OPTIONS'') (Some (str ''/bad/path'')) =
        Inl (Exc FileNotFoundError
          (resolve_path_message w (Some (str ''/bad/path'')) (str ''ELMO_OPTIONS'')))"
    using resolve_path_fails [of w None "str ''ELMO_OPTIONS''" "Some (str ''/bad/path'')"]
    by (simp add: s)
next
  show "str_contains (str ''/bad/path'')
        (resolve_path_message w (Some (str ''/bad/path'')) (str ''ELMO_OPTIONS''))"
    using message_has_path [of "Some (str ''/bad/path'')" w "str ''ELMO_OPTIONS''"]
    by (simp add: py_format_def)
qed

theorem C6_resolve_fails_with_path_and_hint_witness:
  "environ (bare_world Windows) (str ''ELMO_OPTIONS'') = None \<and>
   \<not> isfile (bare_world Windows) (str ''/bad/path'') \<and>
   \<not> isfile (bare_world Windows)
       (py_format (selected (bare_world Windows) None (str ''ELMO_OPTIONS'') (Some (str ''/bad/path'')))) \<and>
   resolve_path (bare_world Windows) None (str ''ELMO_OPTIONS'') (Some (str ''/bad/path'')) =
     Inl (Exc FileNotFoundError
       ([0x6587, 0x4EF6, 0x4E0D, 0x5B58, 0x5728, 0xFF1A] @ str ''/bad/path'' @
        [0xFF08, 0x53EF, 0x7528] @ str '' --options '' @
        [0x6216, 0x8BBE, 0x7F6E, 0x73AF, 0x5883, 0x53D8, 0x91CF] @ str '' ELMO_OPTIONS'' @
        [0xFF09])) \<and>
   str_contains (str ''/bad/path'')
     (resolve_path_message (bare_world Windows) (Some (str ''/bad/path'')) (str ''ELMO_OPTIONS''))"
proof -
  have e: "environ (bare_world Windows) (str ''ELMO_OPTIONS'') = None"
    by (simp add: bare_world_def)
  have f: "\<not> isfile (bare_world Windows) (str ''/bad/path'')"
    by (simp add: bare_world_def isfile_def)
  have s: "selected (bare_world Windows) None (str ''ELMO_OPTIONS'') (Some (str ''/bad/path''))
      = Some (str ''/bad/path'')"
    by (simp add: selected_def py_or_def truthy_def bare_world_def)
  have m: "resolve_path_message (bare_world Windows) (Some (str ''/bad/path'')) (str ''ELMO_OPTIONS'')
      = [0x6587, 0x4EF6, 0x4E0D, 0x5B58, 0x5728, 0xFF1A] @ str ''/bad/path'' @
        [0xFF08, 0x53EF, 0x7528] @ str '' --options '' @
        [0x6216, 0x8BBE, 0x7F6E, 0x73AF, 0x5883, 0x53D8, 0x91CF] @ str '' ELMO_OPTIONS'' @
        [0xFF09]"
    by (simp add: resolve_path_message_def bare_world_def ascii_lower_def py_format_def str_def)
  show ?thesis
    using C6_resolve_fails_with_path_and_hint
      [of "bare_world Windows" None "str ''ELMO_OPTIONS''" "Some (str ''/bad/path'')"] e f s m
    by (simp add: py_format_def)
qed

section \<open>Properties of the prober\<close>

lemma safe_import_ordinary:
  "raises_only_Exception (import_module I n) \<Longrightarrow>
   \<exists>r. safe_import I n = Inr r \<and> package_status r = expected_status I n \<and>
       fst r = imported I n"
  by (auto simp: raises_only_Exception_def safe_import_def package_status_def expected_status_def
      imported_def py_format_def split: sum.splits)

lemma spaCy_smoke_ordinary:
  "raises_only_Exception (spacy_tagged I) \<Longrightarrow>
   spaCy_smoke I (imported I (str ''spacy'')) =
     Inr (print_kv (str ''SPACY SMOKE'') (expected_spacy_smoke I))"
  by (auto simp: raises_only_Exception_def spaCy_smoke_def expected_spacy_smoke_def isinstance_def
      split: sum.splits option.splits)

lemma tbx_smoke_ordinary:
  "raises_only_Exception (summary_writer_callable I) \<Longrightarrow>
   tbx_smoke I (imported I (str ''tensorboardX'')) =
     Inr (print_kv (str ''TENSORBOARDX SMOKE'') (expected_tbx_smoke I))"
  by (auto simp: raises_only_Exception_def tbx_smoke_def expected_tbx_smoke_def isinstance_def
      split: sum.splits option.splits)

text \<open>With imports that succeed or raise an \<open>Exception\<close>, \<open>main\<close> gets to the smoke tests.\<close>

lemma probe_reaches_smoke_tests:
  assumes "list_all (\<lambda>n. raises_only_Exception (import_module I n)) packages"
  shows "probe_diag_main I =
     (case spaCy_smoke I (imported I (str ''spacy'')) of
        Inl e \<Rightarrow> (report_of_packages I, Some e)
      | Inr l1 \<Rightarrow>
          (case tbx_smoke I (imported I (str ''tensorboardX'')) of
             Inl e \<Rightarrow> (report_of_packages I @ [l1], Some e)
           | Inr l2 \<Rightarrow>
               (report_of_packages I @ [l1, l2, 0x0A # rule60, str ''DONE'', rule60], None)))"
proof -
  have h:
    "raises_only_Exception (import_module I (str ''google.protobuf''))"
    "raises_only_Exception (import_module I (str ''spacy''))"
    "raises_only_Exception (import_module I (str ''torch''))"
    "raises_only_Exception (import_module I (str ''gensim''))"
    "raises_only_Exception (import_module I (str ''tensorboardX''))"
    "raises_only_Exception (import_module I (str ''lmdb''))"
    "raises_only_Exception (import_module I (str ''sciwing''))"
    using assms by (simp_all add: packages_def)
  obtain r1 where r1: "safe_import I (str ''google.protobuf'') = Inr r1"
    and p1: "package_status r1 = expected_status I (str ''google.protobuf'')"
    using safe_import_ordinary [OF h(1)] by blast
  obtain r2 where r2: "safe_import I (str ''spacy'') = Inr r2"
    and p2: "package_status r2 = expected_status I (str ''spacy'')"
    and m2: "fst r2 = imported I (str ''spacy'')"
    using safe_import_ordinary [OF h(2)] by blast
  obtain r3 where r3: "safe_import I (str ''torch'') = Inr r3"
    and p3: "package_status r3 = expected_status I (str ''torch'')"
    using safe_import_ordinary [OF h(3)] by blast
  obtain r4 where r4: "safe_import I (str ''gensim'') = Inr r4"
    and p4: "package_status r4 = expected_status I (str ''gensim'')"
    using safe_import_ordinary [OF h(4)] by blast
  obtain r5 where r5: "safe_import I (str ''tensorboardX'') = Inr r5"
    and p5: "package_status r5 = expected_status I (str ''tensorboardX'')"
    and m5: "fst r5 = imported I (str ''tensorboardX'')"
    using safe_import_ordinary [OF h(5)] by blast
  obtain r6 where r6: "safe_import I (str ''lmdb'') = Inr r6"
    and p6: "package_status r6 = expected_status I (str ''lmdb'')"
    using safe_import_ordinary [OF h(6)] by blast
  obtain r7 where r7: "safe_import I (str ''sciwing'') = Inr r7"
    and p7: "package_status r7 = expected_status I (str ''sciwing'')"
    using safe_import_ordinary [OF h(7)] by blast
  show ?thesis
    by (simp add: probe_diag_main_def Let_def r1 r2 r3 r4 r5 r6 r7 p1 p2 p3 p4 p5 p6 p7 m2 m5
        report_of_packages_def labels_def packages_def split: sum.splits)
qed

text \<open>
  C7, as the code has it. When each of the seven imports either succeeds or raises an
  instance of \<open>Exception\<close>, the report holds the head and one status line for each
  package in the order of the source (the failed ones with \<open>NOT INSTALLED\<close> and the
  message), and \<open>main\<close> goes on to the smoke tests: the spaCy test runs, and the
  tensorboardX test after it unless the first lets an exception escape. When what the
  smoke steps raise are instances of \<open>Exception\<close> too, no exception leaves \<open>main\<close> and
  the report ends with the line of each smoke test and the closing lines.
\<close>

theorem C7_probe_isolation:
  assumes "list_all (\<lambda>n. raises_only_Exception (import_module I n)) packages"
  shows "prefix
      (probe_head I @
       map2 (\<lambda>l n. print_kv l (expected_status I n)) labels packages @
       [0x0A # rule60, str ''SMOKE TESTS'', rule60])
      (fst (probe_diag_main I)) \<and>
    probe_diag_main I =
     (case spaCy_smoke I (imported I (str ''spacy'')) of
        Inl e \<Rightarrow> (report_of_packages I, Some e)
      | Inr l1 \<Rightarrow>
          (case tbx_smoke I (imported I (str ''tensorboardX'')) of
             Inl e \<Rightarrow> (report_of_packages I @ [l1], Some e)
           | Inr l2 \<Rightarrow>
               (report_of_packages I @ [l1, l2, 0x0A # rule60, str ''DONE'', rule60], None))) \<and>
    (raises_only_Exception (spacy_tagged I) \<and> raises_only_Exception (summary_writer_callable I) \<longrightarrow>
       probe_diag_main I =
         (probe_head I @
          map2 (\<lambda>l n. print_kv l (expected_status I n)) labels packages @
          [0x0A # rule60, str ''SMOKE TESTS'', rule60,
           print_kv (str ''SPACY SMOKE'') (expected_spacy_smoke I),
           print_kv (str ''TENSORBOARDX SMOKE'') (expected_tbx_smoke I),
           0x0A # rule60, str ''DONE'', rule60], None))"
proof (intro conjI impI)
  note m = probe_reaches_smoke_tests [OF assms]
  show "probe_diag_main I =
     (case spaCy_smoke I (imported I (str ''spacy'')) of
        Inl e \<Rightarrow> (report_of_packages I, Some e)
      | Inr l1 \<Rightarrow>
          (case tbx_smoke I (imported I (str ''tensorboardX'')) of
             Inl e \<Rightarrow> (report_of_packages I @ [l1], Some e)
           | Inr l2 \<Rightarrow>
               (report_of_packages I @ [l1, l2, 0x0A # rule60, str ''DONE'', rule60], None)))"
    by (rule m)
  have "prefix (report_of_packages I) (fst (probe_diag_main I))"
    unfolding m by (auto split: sum.splits)
  then show "prefix
      (probe_head I @
       map2 (\<lambda>l n. print_kv l (expected_status I n)) labels packages @
       [0x0A # rule60, str ''SMOKE TESTS'', rule60])
      (fst (probe_diag_main I))"
    by (simp only: report_of_packages_def)
  assume s: "raises_only_Exception (spacy_tagged I) \<and>
    raises_only_Exception (summary_writer_callable I)"
  show "probe_diag_main I =
         (probe_head I @
          map2 (\<lambda>l n. print_kv l (expected_status I n)) labels packages @
          [0x0A # rule60, str ''SMOKE TESTS'', rule60,
           print_kv (str ''SPACY SMOKE'') (expected_spacy_smoke I),
           print_kv (str ''TENSORBOARDX SMOKE'') (expected_tbx_smoke I),
           0x0A # rule60, str ''DONE'', rule60], None)"
    unfolding m using s
    by (simp add: spaCy_smoke_ordinary tbx_smoke_ordinary report_of_packages_def)
qed

lemma partly_installed_imports:
  "list_all (\<lambda>n. raises_only_Exception (import_module partly_installed n)) packages"
  by (simp add: packages_def partly_installed_def raises_only_Exception_def isinstance_def)

theorem C7_probe_isolation_witness:
  "list_all (\<lambda>n. raises_only_Exception (import_module partly_installed n)) packages \<and>
   raises_only_Exception (spacy_tagged partly_installed) \<and>
   raises_only_Exception (summary_writer_callable partly_installed) \<and>
   probe_diag_main partly_installed =
     (probe_head partly_installed @
      [print_kv (str ''protobuf'') (str ''NOT INSTALLED (No module named google.protobuf)''),
       print_kv (str ''spacy'') (str ''2.1.8''),
       print_kv (str ''torch'') (str ''1.1.0''),
       print_kv (str ''gensim'') (str ''NOT INSTALLED (No module named gensim)''),
       print_kv (str ''tensorboardX'') (str ''N/A''),
       print_kv (str ''lmdb'') (str ''NOT INSTALLED (No module named lmdb)''),
       print_kv (str ''sciwing'') (str ''NOT INSTALLED (No module named sciwing)''),
       0x0A # rule60, str ''SMOKE TESTS'', rule60,
       print_kv (str ''SPACY SMOKE'') (str ''FAILED -> no model''),
       print_kv (str ''TENSORBOARDX SMOKE'') (str ''OK; SummaryWriter available = True''),
       0x0A # rule60, str ''DONE'', rule60], None)"
proof -
  have a: "raises_only_Exception (spacy_tagged partly_installed)"
    by (simp add: partly_installed_def raises_only_Exception_def isinstance_def)
  have b: "raises_only_Exception (summary_writer_callable partly_installed)"
    by (simp add: partly_installed_def raises_only_Exception_def)
  have c: "map2 (\<lambda>l n. print_kv l (expected_status partly_installed n)) labels packages =
      [print_kv (str ''protobuf'') (str ''NOT INSTALLED (No module named google.protobuf)''),
       print_kv (str ''spacy'') (str ''2.1.8''),
       print_kv (str ''torch'') (str ''1.1.0''),
       print_kv (str ''gensim'') (str ''NOT INSTALLED (No module named gensim)''),
       print_kv (str ''tensorboardX'') (str ''N/A''),
       print_kv (str ''lmdb'') (str ''NOT INSTALLED (No module named lmdb)''),
       print_kv (str ''sciwing'') (str ''NOT INSTALLED (No module named sciwing)'')]"
    by (simp add: packages_def labels_def expected_status_def partly_installed_def str_def)
  have d: "expected_spacy_smoke partly_installed = str ''FAILED -> no model''"
    by (simp add: expected_spacy_smoke_def imported_def partly_installed_def str_def)
  have e: "expected_tbx_smoke partly_installed = str ''OK; SummaryWriter available = True''"
    by (simp add: expected_tbx_smoke_def imported_def partly_installed_def py_bool_def str_def)
  have "probe_diag_main partly_installed =
         (probe_head partly_installed @
          map2 (\<lambda>l n. print_kv l (expected_status partly_installed n)) labels packages @
          [0x0A # rule60, str ''SMOKE TESTS'', rule60,
           print_kv (str ''SPACY SMOKE'') (expected_spacy_smoke partly_installed),
           print_kv (str ''TENSORBOARDX SMOKE'') (expected_tbx_smoke partly_installed),
           0x0A # rule60, str ''DONE'', rule60], None)"
    using C7_probe_isolation [OF partly_installed_imports] a b by blast
  then have "probe_diag_main partly_installed =
     (probe_head partly_installed @
      [print_kv (str ''protobuf'') (str ''NOT INSTALLED (No module named google.protobuf)''),
       print_kv (str ''spacy'') (str ''2.1.8''),
       print_kv (str ''torch'') (str ''1.1.0''),
       print_kv (str ''gensim'') (str ''NOT INSTALLED (No module named gensim)''),
       print_kv (str ''tensorboardX'') (str ''N/A''),
       print_kv (str ''lmdb'') (str ''NOT INSTALLED (No module named lmdb)''),
       print_kv (str ''sciwing'') (str ''NOT INSTALLED (No module named sciwing)''),
       0x0A # rule60, str ''SMOKE TESTS'', rule60,
       print_kv (str ''SPACY SMOKE'') (str ''FAILED -> no model''),
       print_kv (str ''TENSORBOARDX SMOKE'') (str ''OK; SummaryWriter available = True''),
       0x0A # rule60, str ''DONE'', rule60], None)"
    by (simp only: c d e append_Cons append_Nil)
  then show ?thesis using partly_installed_imports a b by blast
qed

text \<open>
  The claim as written fails where an import raises an exception that is no instance
  of \<open>Exception\<close>. With \<open>gensim\<close> calling \<open>sys.exit\<close> while it is imported, the
  \<open>SystemExit\<close> leaves \<open>main\<close> after the fourteen lines of the head: no package has a
  status line and no smoke test runs. And with every import caught, an interrupt while
  the spaCy pipeline loads ends \<open>main\<close> before the tensorboardX smoke test.
\<close>

theorem C7_counterexample:
  "import_module gensim_exits (str ''gensim'') = Inl (Exc SystemExit (str ''1'')) \<and>
   isinstance (Exc SystemExit (str ''1'')) BaseException \<and>
   probe_diag_main gensim_exits = (probe_head gensim_exits, Some (Exc SystemExit (str ''1''))) \<and>
   length (probe_head gensim_exits) = 14 \<and>
   import_module spacy_interrupted (str ''gensim'') =
     Inl (Exc ModuleNotFoundError (str ''No module named gensim'')) \<and>
   probe_diag_main spacy_interrupted =
     (report_of_packages spacy_interrupted, Some (Exc KeyboardInterrupt []))"
proof -
  have a: "probe_diag_main gensim_exits =
      (probe_head gensim_exits, Some (Exc SystemExit (str ''1'')))"
    by (simp add: probe_diag_main_def Let_def safe_import_def gensim_exits_def
        partly_installed_def isinstance_def str_def)
  have i: "list_all (\<lambda>n. raises_only_Exception (import_module spacy_interrupted n)) packages"
    by (simp add: packages_def spacy_interrupted_def partly_installed_def
        raises_only_Exception_def isinstance_def)
  have s: "spaCy_smoke spacy_interrupted (imported spacy_interrupted (str ''spacy'')) =
      Inl (Exc KeyboardInterrupt [])"
    by (simp add: spaCy_smoke_def imported_def spacy_interrupted_def partly_installed_def
        isinstance_def str_def)
  have b: "probe_diag_main spacy_interrupted =
     (report_of_packages spacy_interrupted, Some (Exc KeyboardInterrupt []))"
    using probe_reaches_smoke_tests [OF i] by (simp add: s)
  have c: "import_module gensim_exits (str ''gensim'') = Inl (Exc SystemExit (str ''1''))"
    by (simp add: gensim_exits_def)
  have d: "import_module spacy_interrupted (str ''gensim'') =
     Inl (Exc ModuleNotFoundError (str ''No module named gensim''))"
    by (simp add: spacy_interrupted_def partly_installed_def str_def)
  show ?thesis using a b c d by (simp add: isinstance_def probe_head_def)
qed

section \<open>Properties of \<open>replace\<close>\<close>

lemma str_contains_Nil: "str_contains [] s"
  by (cases s) simp_all

lemma replace_absent:
  "old \<noteq> [] \<Longrightarrow> \<not> str_contains old s \<Longrightarrow> str_replace_from old new count s = s"
proof (induction s)
  case Nil
  then show ?case by (subst str_replace_from.simps) simp
next
  case (Cons c cs)
  then have "\<not> prefix old (c # cs)" "str_replace_from old new count cs = cs" by auto
  then show ?case by (subst str_replace_from.simps) simp
qed

lemma replace_first:
  assumes "old \<noteq> []"
  shows "str_contains old s \<Longrightarrow>
    \<exists>pre post. s = pre @ old @ post \<and>
      (\<forall>pre' post'. s = pre' @ old @ post' \<longrightarrow> length pre \<le> length pre') \<and>
      str_replace_from old new (Some 1) s = pre @ new @ post"
proof (induction s)
  case Nil
  then show ?case using assms by simp
next
  case (Cons c cs)
  show ?case
  proof (cases "prefix old (c # cs)")
    case True
    then obtain post where p: "c # cs = old @ post" by (auto simp: prefix_def)
    have "str_replace_from old new (Some 0) post = post"
      by (subst str_replace_from.simps) simp
    then have "str_replace_from old new (Some 1) (c # cs) = new @ post"
      using assms True p by (subst str_replace_from.simps) simp
    then have "c # cs = [] @ old @ post \<and>
      (\<forall>pre' post'. c # cs = pre' @ old @ post' \<longrightarrow> length ([]::nat list) \<le> length pre') \<and>
      str_replace_from old new (Some 1) (c # cs) = [] @ new @ post"
      using p by simp
    then show ?thesis by blast
  next
    case False
    then have "str_contains old cs" using Cons.prems by simp
    then obtain pre post where ih: "cs = pre @ old @ post"
      "\<forall>pre' post'. cs = pre' @ old @ post' \<longrightarrow> length pre \<le> length pre'"
      "str_replace_from old new (Some 1) cs = pre @ new @ post"
      using Cons.IH by blast
    have r: "str_replace_from old new (Some 1) (c # cs) = (c # pre) @ new @ post"
      using assms False ih(3) by (subst str_replace_from.simps) simp
    have m: "\<forall>pre' post'. c # cs = pre' @ old @ post' \<longrightarrow> length (c # pre) \<le> length pre'"
    proof (intro allI impI)
      fix pre' post'
      assume h: "c # cs = pre' @ old @ post'"
      show "length (c # pre) \<le> length pre'"
      proof (cases pre')
        case Nil
        then have "prefix old (c # cs)" using h by (simp add: prefix_def)
        then show ?thesis using False by simp
      next
        case (Cons x xs)
        then have "cs = xs @ old @ post'" using h by simp
        then have "length pre \<le> length xs" using ih(2) by blast
        then show ?thesis using Cons by simp
      qed
    qed
    have "c # cs = (c # pre) @ old @ post" using ih(1) by simp
    then show ?thesis using r m by blast
  qed
qed

section \<open>Properties of the codec\<close>

declare utf8_decode_ignore.simps(2) [simp del]

lemma decode_ascii: "b < 0x80 \<Longrightarrow> utf8_decode_ignore (b # r) = b # utf8_decode_ignore r"
  by (subst utf8_decode_ignore.simps(2)) simp

lemma decode_invalid_start:
  "(0x80 \<le> b \<and> b < 0xC2) \<or> 0xF5 \<le> b \<Longrightarrow> utf8_decode_ignore (b # r) = utf8_decode_ignore r"
  by (subst utf8_decode_ignore.simps(2)) auto

lemma decode_lead2:
  "0xC2 \<le> b0 \<Longrightarrow> b0 < 0xE0 \<Longrightarrow>
   utf8_decode_ignore (b0 # r0) =
     (case r0 of
        [] \<Rightarrow> []
      | b1 # r1 \<Rightarrow>
          if is_continuation b1
          then ((b0 - 0xC0) * 64 + (b1 - 0x80)) # utf8_decode_ignore r1
          else utf8_decode_ignore r0)"
  by (subst utf8_decode_ignore.simps(2)) simp

lemma decode_lead3:
  "0xE0 \<le> b0 \<Longrightarrow> b0 < 0xF0 \<Longrightarrow>
   utf8_decode_ignore (b0 # r0) =
     (case r0 of
        [] \<Rightarrow> []
      | b1 # r1 \<Rightarrow>
          if \<not> valid_second b0 b1 then utf8_decode_ignore r0
          else
            (case r1 of
               [] \<Rightarrow> []
             | b2 # r2 \<Rightarrow>
                 if is_continuation b2
                 then ((b0 - 0xE0) * 4096 + (b1 - 0x80) * 64 + (b2 - 0x80))
                        # utf8_decode_ignore r2
                 else utf8_decode_ignore r1))"
  by (subst utf8_decode_ignore.simps(2)) simp

lemma decode_lead4:
  "0xF0 \<le> b0 \<Longrightarrow> b0 < 0xF5 \<Longrightarrow>
   utf8_decode_ignore (b0 # r0) =
     (case r0 of
        [] \<Rightarrow> []
      | b1 # r1 \<Rightarrow>
          if \<not> valid_second b0 b1 then utf8_decode_ignore r0
          else
            (case r1 of
               [] \<Rightarrow> []
             | b2 # r2 \<Rightarrow>
                 if \<not> is_continuation b2 then utf8_decode_ignore r1
                 else
                   (case r2 of
                      [] \<Rightarrow> []
                    | b3 # r3 \<Rightarrow>
                        if is_continuation b3
                        then ((b0 - 0xF0) * 262144 + (b1 - 0x80) * 4096 +
                              (b2 - 0x80) * 64 + (b3 - 0x80)) # utf8_decode_ignore r3
                        else utf8_decode_ignore r2)))"
  by (subst utf8_decode_ignore.simps(2)) simp

lemma decode_2: "0xC2 \<le> b0 \<Longrightarrow> b0 < 0xE0 \<Longrightarrow> is_continuation b1 \<Longrightarrow>
  utf8_decode_ignore (b0 # b1 # r) = ((b0 - 0xC0) * 64 + (b1 - 0x80)) # utf8_decode_ignore r"
  by (simp add: decode_lead2)

lemma decode_3: "0xE0 \<le> b0 \<Longrightarrow> b0 < 0xF0 \<Longrightarrow> valid_second b0 b1 \<Longrightarrow> is_continuation b2 \<Longrightarrow>
  utf8_decode_ignore (b0 # b1 # b2 # r) =
    ((b0 - 0xE0) * 4096 + (b1 - 0x80) * 64 + (b2 - 0x80)) # utf8_decode_ignore r"
  by (simp add: decode_lead3)

lemma decode_4: "0xF0 \<le> b0 \<Longrightarrow> b0 < 0xF5 \<Longrightarrow> valid_second b0 b1 \<Longrightarrow> is_continuation b2 \<Longrightarrow>
  is_continuation b3 \<Longrightarrow>
  utf8_decode_ignore (b0 # b1 # b2 # b3 # r) =
    ((b0 - 0xF0) * 262144 + (b1 - 0x80) * 4096 + (b2 - 0x80) * 64 + (b3 - 0x80))
      # utf8_decode_ignore r"
  by (simp add: decode_lead4)

lemma enc2: assumes "0x80 \<le> (c::nat)" "c < 0x800"
  shows "0xC2 \<le> 0xC0 + c div 64" "0xC0 + c div 64 < 0xE0"
proof -
  have "0x80 div 64 \<le> c div 64" using assms(1) by (rule div_le_mono)
  then show "0xC2 \<le> 0xC0 + c div 64" by simp
  have "c div 64 < 32" using assms(2) by (simp add: less_mult_imp_div_less)
  then show "0xC0 + c div 64 < 0xE0" by simp
qed

lemma enc3: assumes "0x800 \<le> (c::nat)" "c < 0x10000" "\<not> (0xD800 \<le> c \<and> c < 0xE000)"
  shows "0xE0 + c div 4096 < 0xF0"
    "\<not> (0xE0 + c div 4096 = 0xE0 \<and> 0x80 + c div 64 mod 64 < 0xA0)"
    "\<not> (0xE0 + c div 4096 = 0xED \<and> 0xA0 \<le> 0x80 + c div 64 mod 64)"
    "(c div 4096) * 4096 + (c div 64 mod 64) * 64 + c mod 64 = c"
proof -
  have "c div 4096 < 16" using assms(2) by (simp add: less_mult_imp_div_less)
  then show "0xE0 + c div 4096 < 0xF0" by simp
  have d: "c div 4096 = c div 64 div 64" by (simp add: div_mult2_eq)
  show "\<not> (0xE0 + c div 4096 = 0xE0 \<and> 0x80 + c div 64 mod 64 < 0xA0)"
  proof
    assume h: "0xE0 + c div 4096 = 0xE0 \<and> 0x80 + c div 64 mod 64 < 0xA0"
    then have "c div 64 div 64 = 0" "c div 64 mod 64 < 32" using d by simp_all
    then have "c div 64 < 32" by (metis div_mult_mod_eq add_0 mult_zero_left)
    then have "c < 32 * 64" by (simp add: div_less_iff_less_mult)
    then show False using assms(1) by simp
  qed
  show "\<not> (0xE0 + c div 4096 = 0xED \<and> 0xA0 \<le> 0x80 + c div 64 mod 64)"
  proof
    assume h: "0xE0 + c div 4096 = 0xED \<and> 0xA0 \<le> 0x80 + c div 64 mod 64"
    then have a: "c div 64 div 64 = 13" "32 \<le> c div 64 mod 64" using d by simp_all
    have "c div 64 = c div 64 div 64 * 64 + c div 64 mod 64" by simp
    then have e: "13 * 64 + 32 \<le> c div 64" using a by linarith
    have f: "c div 64 < 14 * 64" using a(1) by (simp add: div_less_iff_less_mult [symmetric])
    have "(13 * 64 + 32) * 64 \<le> c" using e by (simp add: less_eq_div_iff_mult_less_eq)
    moreover have "c < 14 * 64 * 64" using f by (simp add: div_less_iff_less_mult)
    ultimately show False using assms(3) by simp
  qed
  have "c div 64 div 64 * 64 + c div 64 mod 64 = c div 64" by simp
  then have "(c div 4096 * 64 + c div 64 mod 64) * 64 + c mod 64 = c" using d by simp
  then show "(c div 4096) * 4096 + (c div 64 mod 64) * 64 + c mod 64 = c"
    by (simp add: add_mult_distrib)
qed


lemma enc4: assumes "0x10000 \<le> (c::nat)" "c < 0x110000"
  shows "0xF0 + c div 262144 < 0xF5"
    "\<not> (0xF0 + c div 262144 = 0xF0 \<and> 0x80 + c div 4096 mod 64 < 0x90)"
    "\<not> (0xF0 + c div 262144 = 0xF4 \<and> 0x90 \<le> 0x80 + c div 4096 mod 64)"
    "(c div 262144) * 262144 + (c div 4096 mod 64) * 4096 + (c div 64 mod 64) * 64 + c mod 64 = c"
proof -
  have "c div 262144 < 5" using assms(2) by (simp add: less_mult_imp_div_less)
  then show "0xF0 + c div 262144 < 0xF5" by simp
  have d: "c div 262144 = c div 4096 div 64" "c div 4096 = c div 64 div 64"
    by (simp_all add: div_mult2_eq)
  have q: "c div 4096 = c div 4096 div 64 * 64 + c div 4096 mod 64" by simp
  show "\<not> (0xF0 + c div 262144 = 0xF0 \<and> 0x80 + c div 4096 mod 64 < 0x90)"
  proof
    assume h: "0xF0 + c div 262144 = 0xF0 \<and> 0x80 + c div 4096 mod 64 < 0x90"
    then have "c div 4096 div 64 = 0" "c div 4096 mod 64 < 16" using d(1) by simp_all
    then have "c div 4096 < 16" using q by linarith
    then have "c < 16 * 4096" by (simp add: div_less_iff_less_mult)
    then show False using assms(1) by simp
  qed
  show "\<not> (0xF0 + c div 262144 = 0xF4 \<and> 0x90 \<le> 0x80 + c div 4096 mod 64)"
  proof
    assume h: "0xF0 + c div 262144 = 0xF4 \<and> 0x90 \<le> 0x80 + c div 4096 mod 64"
    then have "c div 4096 div 64 = 4" "16 \<le> c div 4096 mod 64" using d(1) by simp_all
    then have "4 * 64 + 16 \<le> c div 4096" using q by linarith
    then have "(4 * 64 + 16) * 4096 \<le> c" by (simp add: less_eq_div_iff_mult_less_eq)
    then show False using assms(2) by simp
  qed
  have a: "c div 64 div 64 * 64 + c div 64 mod 64 = c div 64" by simp
  have b: "c div 64 * 64 + c mod 64 = c" by simp
  have "((c div 262144 * 64 + c div 4096 mod 64) * 64 + c div 64 mod 64) * 64 + c mod 64 = c"
    using q a b d by simp
  then show "(c div 262144) * 262144 + (c div 4096 mod 64) * 4096 + (c div 64 mod 64) * 64
      + c mod 64 = c"
    by (simp add: add_mult_distrib)
qed


lemma decode_encode_char:
  assumes "utf8_encode_char c = Some b"
  shows "utf8_decode_ignore (b @ r) = c # utf8_decode_ignore r"
proof -
  have cont: "\<And>x::nat. is_continuation (0x80 + x mod 64)"
    by (simp add: is_continuation_def)
  consider "c < 0x80" | "0x80 \<le> c" "c < 0x800" | "0x800 \<le> c" "c < 0x10000" | "0x10000 \<le> c"
    by linarith
  then show ?thesis
  proof cases
    case 1
    then have "b = [c]" using assms by (simp add: utf8_encode_char_def)
    then show ?thesis using 1 by (simp add: decode_ascii)
  next
    case 2
    then have b: "b = [0xC0 + c div 64, 0x80 + c mod 64]"
      using assms by (simp add: utf8_encode_char_def)
    have "utf8_decode_ignore ((0xC0 + c div 64) # (0x80 + c mod 64) # r) =
        ((0xC0 + c div 64 - 0xC0) * 64 + (0x80 + c mod 64 - 0x80)) # utf8_decode_ignore r"
      using enc2 [OF 2] cont by (rule decode_2)
    then show ?thesis by (simp add: b)
  next
    case 3
    then have ns: "\<not> (0xD800 \<le> c \<and> c < 0xE000)"
      and b: "b = [0xE0 + c div 4096, 0x80 + c div 64 mod 64, 0x80 + c mod 64]"
      using assms by (auto simp add: utf8_encode_char_def split: if_splits)
    note e = enc3 [OF 3 ns]
    have v: "valid_second (0xE0 + c div 4096) (0x80 + c div 64 mod 64)"
      unfolding valid_second_def using cont e(1) e(2) e(3) by simp
    have "utf8_decode_ignore ((0xE0 + c div 4096) # (0x80 + c div 64 mod 64) # (0x80 + c mod 64) # r) =
        ((0xE0 + c div 4096 - 0xE0) * 4096 + (0x80 + c div 64 mod 64 - 0x80) * 64 +
         (0x80 + c mod 64 - 0x80)) # utf8_decode_ignore r"
      using _ e(1) v cont by (rule decode_3) simp
    then show ?thesis using e(4) by (simp add: b)
  next
    case 4
    then have lt: "c < 0x110000"
      and b: "b = [0xF0 + c div 262144, 0x80 + c div 4096 mod 64, 0x80 + c div 64 mod 64,
              0x80 + c mod 64]"
      using assms by (auto simp add: utf8_encode_char_def split: if_splits)
    note e = enc4 [OF 4 lt]
    have v: "valid_second (0xF0 + c div 262144) (0x80 + c div 4096 mod 64)"
      unfolding valid_second_def using cont e(1) e(2) e(3) by simp
    have "utf8_decode_ignore ((0xF0 + c div 262144) # (0x80 + c div 4096 mod 64) #
          (0x80 + c div 64 mod 64) # (0x80 + c mod 64) # r) =
        ((0xF0 + c div 262144 - 0xF0) * 262144 + (0x80 + c div 4096 mod 64 - 0x80) * 4096 +
         (0x80 + c div 64 mod 64 - 0x80) * 64 + (0x80 + c mod 64 - 0x80)) # utf8_decode_ignore r"
      using _ e(1) v cont cont by (rule decode_4) simp
    then show ?thesis using e(4) by (simp add: b)
  qed
qed

lemma decode_encode: "utf8_encode s = Some b \<Longrightarrow> utf8_decode_ignore b = s"
proof (induction s arbitrary: b)
  case Nil
  then show ?case by simp
next
  case (Cons c cs)
  then obtain b1 b2 where e: "utf8_encode_char c = Some b1" "utf8_encode cs = Some b2" "b = b1 @ b2"
    by (auto split: option.splits)
  show ?case using decode_encode_char [OF e(1), of b2] Cons.IH [OF e(2)] e(3) by simp
qed

lemma encode_char_scalar: "scalar c \<Longrightarrow> \<exists>b. utf8_encode_char c = Some b"
  by (auto simp: scalar_def utf8_encode_char_def)

lemma encode_char_bytes: "utf8_encode_char c = Some b \<Longrightarrow> list_all (\<lambda>x. x < 256) b"
proof -
  assume a: "utf8_encode_char c = Some b"
  have m: "\<And>x::nat. 0x80 + x mod 64 < 256"
  proof -
    fix x :: nat
    have "x mod 64 < 64" by simp
    then show "0x80 + x mod 64 < 256" by linarith
  qed
  consider "c < 0x80" | "0x80 \<le> c" "c < 0x800" | "0x800 \<le> c" "c < 0x10000" | "0x10000 \<le> c"
    by linarith
  then show ?thesis
  proof cases
    case 1
    then show ?thesis using a by (auto simp: utf8_encode_char_def)
  next
    case 2
    then show ?thesis using a enc2 [OF 2] m by (auto simp: utf8_encode_char_def)
  next
    case 3
    then have ns: "\<not> (0xD800 \<le> c \<and> c < 0xE000)"
      using a by (auto simp add: utf8_encode_char_def split: if_splits)
    show ?thesis using a 3 ns enc3(1) [OF 3 ns] m by (auto simp: utf8_encode_char_def)
  next
    case 4
    then have lt: "c < 0x110000"
      using a by (auto simp add: utf8_encode_char_def split: if_splits)
    show ?thesis using a 4 lt enc4(1) [OF 4 lt] m by (auto simp: utf8_encode_char_def)
  qed
qed

lemma encode_scalar: "list_all scalar s \<Longrightarrow> \<exists>b. utf8_encode s = Some b"
proof (induction s)
  case Nil
  then show ?case by simp
next
  case (Cons c cs)
  then obtain b1 b2 where "utf8_encode_char c = Some b1" "utf8_encode cs = Some b2"
    using encode_char_scalar by fastforce
  then show ?case by simp
qed

lemma encode_bytes: "utf8_encode s = Some b \<Longrightarrow> list_all (\<lambda>x. x < 256) b"
proof (induction s arbitrary: b)
  case Nil
  then show ?case by simp
next
  case (Cons c cs)
  then obtain b1 b2 where e: "utf8_encode_char c = Some b1" "utf8_encode cs = Some b2" "b = b1 @ b2"
    by (auto split: option.splits)
  show ?case using encode_char_bytes [OF e(1)] Cons.IH [OF e(2)] e(3) by simp
qed



lemma continuation_offset: "is_continuation b \<Longrightarrow> \<exists>x<64. b = 0x80 + x"
proof -
  assume "is_continuation b"
  then have "0x80 \<le> b" "b < 0xC0" by (simp_all add: is_continuation_def)
  then have "b - 0x80 < 64" "b = 0x80 + (b - 0x80)" by linarith+
  then show ?thesis by blast
qed

lemma lead_offset: "(k::nat) \<le> b \<Longrightarrow> \<exists>y. b = k + y"
  by (simp add: le_iff_add)

lemma valid_secondD: "valid_second b0 b1 \<Longrightarrow> is_continuation b1"
  by (simp add: valid_second_def)

lemma dm64:
  assumes "x < 64"
  shows "(q * 64 + x) div 64 = q" "(q * 64 + x) mod 64 = (x::nat)"
  using assms by simp_all

lemma encode_decoded2:
  assumes "0xC2 \<le> b0" "b0 < 0xE0" "is_continuation b1"
  shows "utf8_encode_char ((b0 - 0xC0) * 64 + (b1 - 0x80)) = Some [b0, b1]"
proof -
  obtain x where x: "x < 64" "b1 = 0x80 + x" using continuation_offset [OF assms(3)] by blast
  obtain y where y: "b0 = 0xC0 + y"
    using lead_offset [of "0xC0" b0] assms(1) by auto
  have y2: "2 \<le> y" "y < 32" using assms(1,2) y by simp_all
  have d: "(y * 64 + x) div 64 = y" "(y * 64 + x) mod 64 = x" using x(1) by simp_all
  have r: "\<not> y * 64 + x < 0x80" "y * 64 + x < 0x800" using y2 x(1) by linarith+
  show ?thesis by (simp add: utf8_encode_char_def x y d r)
qed

lemma encode_decoded3:
  assumes "0xE0 \<le> b0" "b0 < 0xF0" "valid_second b0 b1" "is_continuation b2"
  shows "utf8_encode_char ((b0 - 0xE0) * 4096 + (b1 - 0x80) * 64 + (b2 - 0x80)) = Some [b0, b1, b2]"
proof -
  obtain x1 where x1: "x1 < 64" "b1 = 0x80 + x1"
    using continuation_offset [OF valid_secondD [OF assms(3)]] by blast
  obtain x2 where x2: "x2 < 64" "b2 = 0x80 + x2" using continuation_offset [OF assms(4)] by blast
  obtain y where y: "b0 = 0xE0 + y" using lead_offset [OF assms(1)] by blast
  have y16: "y < 16" using assms(2) y by simp
  have e0: "y = 0 \<Longrightarrow> 32 \<le> x1" using assms(3) by (simp add: valid_second_def x1 y)
  have ed: "y = 13 \<Longrightarrow> x1 < 32" using assms(3) by (simp add: valid_second_def x1 y)
  define c where "c = y * 4096 + x1 * 64 + x2"
  have c64: "c = (y * 64 + x1) * 64 + x2" by (simp add: c_def)
  have d: "c mod 64 = x2" "c div 64 = y * 64 + x1"
    unfolding c64 using dm64 [OF x2(1)] by blast+
  have d2: "c div 64 mod 64 = x1" "c div 4096 = y"
  proof -
    show "c div 64 mod 64 = x1" unfolding d(2) using x1(1) by (rule dm64(2))
    have "c div 4096 = c div 64 div 64" by (simp add: div_mult2_eq)
    then show "c div 4096 = y" unfolding d(2) using dm64(1) [OF x1(1)] by simp
  qed
  have lo: "\<not> c < 0x80" "\<not> c < 0x800"
  proof -
    have "0x800 \<le> c"
    proof (cases "y = 0")
      case True
      then show ?thesis using e0 by (simp add: c_def)
    next
      case False
      then have "1 \<le> y" by simp
      then show ?thesis unfolding c_def by linarith
    qed
    then show "\<not> c < 0x80" "\<not> c < 0x800" by simp_all
  qed
  have hi: "c < 0x10000" unfolding c_def using y16 x1(1) x2(1) by linarith
  have ns: "\<not> (0xD800 \<le> c \<and> c < 0xE000)"
  proof -
    consider "y \<le> 12" | "y = 13" | "14 \<le> y" by linarith
    then show ?thesis
    proof cases
      case 1
      then have "c < 0xD800" unfolding c_def using x1(1) x2(1) by linarith
      then show ?thesis by simp
    next
      case 2
      then have "c < 0xD800" unfolding c_def using ed x2(1) by linarith
      then show ?thesis by simp
    next
      case 3
      then have "0xE000 \<le> c" unfolding c_def by linarith
      then show ?thesis by simp
    qed
  qed
  have "utf8_encode_char c = Some [0xE0 + y, 0x80 + x1, 0x80 + x2]"
    using lo hi ns by (simp add: utf8_encode_char_def d(1) d2)
  moreover have "(b0 - 0xE0) * 4096 + (b1 - 0x80) * 64 + (b2 - 0x80) = c"
    by (simp add: c_def x1 x2 y)
  ultimately show ?thesis by (simp add: x1 x2 y)
qed

lemma encode_decoded4:
  assumes "0xF0 \<le> b0" "b0 < 0xF5" "valid_second b0 b1" "is_continuation b2" "is_continuation b3"
  shows "utf8_encode_char ((b0 - 0xF0) * 262144 + (b1 - 0x80) * 4096 + (b2 - 0x80) * 64 + (b3 - 0x80))
     = Some [b0, b1, b2, b3]"
proof -
  obtain x1 where x1: "x1 < 64" "b1 = 0x80 + x1"
    using continuation_offset [OF valid_secondD [OF assms(3)]] by blast
  obtain x2 where x2: "x2 < 64" "b2 = 0x80 + x2" using continuation_offset [OF assms(4)] by blast
  obtain x3 where x3: "x3 < 64" "b3 = 0x80 + x3" using continuation_offset [OF assms(5)] by blast
  obtain y where y: "b0 = 0xF0 + y" using lead_offset [OF assms(1)] by blast
  have y5: "y < 5" using assms(2) y by simp
  have f0: "y = 0 \<Longrightarrow> 16 \<le> x1" using assms(3) by (simp add: valid_second_def x1 y)
  have f4: "y = 4 \<Longrightarrow> x1 < 16" using assms(3) by (simp add: valid_second_def x1 y)
  define c where "c = y * 262144 + x1 * 4096 + x2 * 64 + x3"
  have c64: "c = ((y * 64 + x1) * 64 + x2) * 64 + x3" by (simp add: c_def)
  have d: "c mod 64 = x3" "c div 64 = (y * 64 + x1) * 64 + x2"
    unfolding c64 using dm64 [OF x3(1)] by blast+
  have d1: "c div 64 mod 64 = x2" "c div 64 div 64 = y * 64 + x1"
    unfolding d(2) using dm64 [OF x2(1)] by blast+
  have d2: "c div 4096 mod 64 = x1" "c div 262144 = y"
  proof -
    have a: "c div 4096 = c div 64 div 64" by (simp add: div_mult2_eq)
    show "c div 4096 mod 64 = x1" unfolding a d1(2) using x1(1) by (rule dm64(2))
    have "c div 262144 = c div 4096 div 64" by (simp add: div_mult2_eq)
    then show "c div 262144 = y" unfolding a d1(2) using dm64(1) [OF x1(1)] by simp
  qed
  have lo: "0x10000 \<le> c"
  proof (cases "y = 0")
    case True
    then show ?thesis using f0 by (simp add: c_def)
  next
    case False
    then have "1 \<le> y" by simp
    then show ?thesis unfolding c_def by linarith
  qed
  have hi: "c < 0x110000"
  proof (cases "y = 4")
    case True
    then show ?thesis unfolding c_def using f4 x2(1) x3(1) by linarith
  next
    case False
    then have "y \<le> 3" using y5 by simp
    then show ?thesis unfolding c_def using x1(1) x2(1) x3(1) by linarith
  qed
  have "utf8_encode_char c = Some [0xF0 + y, 0x80 + x1, 0x80 + x2, 0x80 + x3]"
    using lo hi by (simp add: utf8_encode_char_def d(1) d1(1) d2)
  moreover have "(b0 - 0xF0) * 262144 + (b1 - 0x80) * 4096 + (b2 - 0x80) * 64 + (b3 - 0x80) = c"
    by (simp add: c_def x1 x2 x3 y)
  ultimately show ?thesis by (simp add: x1 x2 x3 y)
qed

lemma encode_char_SomeD: "utf8_encode_char c = Some b \<Longrightarrow> scalar c"
  by (auto simp: utf8_encode_char_def scalar_def split: if_splits)

text \<open>
  One step of the decoder. Either it drops the first byte, and perhaps more, and goes
  on; or it takes from the front exactly the bytes that encode one character, puts
  that character out, and goes on.
\<close>

lemma decode_one:
  "\<exists>k. (list_all is_continuation (take k r0) \<and>
          utf8_decode_ignore (b0 # r0) = utf8_decode_ignore (drop k r0)) \<or>
     (\<exists>c enc. utf8_encode_char c = Some enc \<and> b0 # r0 = enc @ drop k r0 \<and>
        utf8_decode_ignore (b0 # r0) = c # utf8_decode_ignore (drop k r0))"
proof -
  have skip: "\<And>k. list_all is_continuation (take k r0) \<Longrightarrow>
      utf8_decode_ignore (b0 # r0) = utf8_decode_ignore (drop k r0) \<Longrightarrow> ?thesis"
    by blast
  have skip0: "utf8_decode_ignore (b0 # r0) = utf8_decode_ignore r0 \<Longrightarrow> ?thesis"
    using skip [of 0] by simp
  have emit: "\<And>k c enc. utf8_encode_char c = Some enc \<Longrightarrow> b0 # r0 = enc @ drop k r0 \<Longrightarrow>
      utf8_decode_ignore (b0 # r0) = c # utf8_decode_ignore (drop k r0) \<Longrightarrow> ?thesis"
    by blast
  consider "b0 < 0x80" | "(0x80 \<le> b0 \<and> b0 < 0xC2) \<or> 0xF5 \<le> b0" | "0xC2 \<le> b0" "b0 < 0xE0"
    | "0xE0 \<le> b0" "b0 < 0xF0" | "0xF0 \<le> b0" "b0 < 0xF5"
    by linarith
  then show ?thesis
  proof cases
    case 1
    then have "utf8_encode_char b0 = Some [b0]" by (simp add: utf8_encode_char_def)
    then show ?thesis using decode_ascii [OF 1, of r0] emit [of b0 "[b0]" 0] by simp
  next
    case 2
    then show ?thesis using decode_invalid_start [OF 2, of r0] skip0 by simp
  next
    case 3
    note u = decode_lead2 [OF 3, of r0]
    show ?thesis
    proof (cases r0)
      case Nil
      then show ?thesis using u skip0 by simp
    next
      case r0: (Cons b1 r1)
      show ?thesis
      proof (cases "is_continuation b1")
        case True
        have "utf8_decode_ignore (b0 # r0) =
            ((b0 - 0xC0) * 64 + (b1 - 0x80)) # utf8_decode_ignore (drop (Suc 0) r0)"
          using u r0 True by simp
        moreover have "b0 # r0 = [b0, b1] @ drop (Suc 0) r0" using r0 by simp
        ultimately show ?thesis using encode_decoded2 [OF 3 True] emit by blast
      next
        case False
        then have "utf8_decode_ignore (b0 # r0) = utf8_decode_ignore r0"
          using u r0 by simp
        then show ?thesis by (rule skip0)
      qed
    qed
  next
    case 4
    note u = decode_lead3 [OF 4, of r0]
    show ?thesis
    proof (cases r0)
      case Nil
      then show ?thesis using u skip0 by simp
    next
      case r0: (Cons b1 r1)
      show ?thesis
      proof (cases "valid_second b0 b1")
        case False
        then have "utf8_decode_ignore (b0 # r0) = utf8_decode_ignore r0"
          using u r0 by simp
        then show ?thesis by (rule skip0)
      next
        case ok: True
        have k1: "list_all is_continuation (take (Suc 0) r0)"
          using valid_secondD [OF ok] r0 by simp
        show ?thesis
        proof (cases r1)
          case Nil
          then have "utf8_decode_ignore (b0 # r0) = utf8_decode_ignore (drop (Suc 0) r0)"
            using u r0 ok by simp
          with k1 show ?thesis by (rule skip)
        next
          case r1: (Cons b2 r2)
          show ?thesis
          proof (cases "is_continuation b2")
            case True
            have "utf8_decode_ignore (b0 # r0) =
                ((b0 - 0xE0) * 4096 + (b1 - 0x80) * 64 + (b2 - 0x80))
                  # utf8_decode_ignore (drop (Suc (Suc 0)) r0)"
              using u r0 r1 ok True by simp
            moreover have "b0 # r0 = [b0, b1, b2] @ drop (Suc (Suc 0)) r0" using r0 r1 by simp
            ultimately show ?thesis using encode_decoded3 [OF 4 ok True] emit by blast
          next
            case False
            then have "utf8_decode_ignore (b0 # r0) = utf8_decode_ignore (drop (Suc 0) r0)"
              using u r0 r1 ok by simp
            with k1 show ?thesis by (rule skip)
          qed
        qed
      qed
    qed
  next
    case 5
    note u = decode_lead4 [OF 5, of r0]
    show ?thesis
    proof (cases r0)
      case Nil
      then show ?thesis using u skip0 by simp
    next
      case r0: (Cons b1 r1)
      show ?thesis
      proof (cases "valid_second b0 b1")
        case False
        then have "utf8_decode_ignore (b0 # r0) = utf8_decode_ignore r0"
          using u r0 by simp
        then show ?thesis by (rule skip0)
      next
        case ok: True
        have k1: "list_all is_continuation (take (Suc 0) r0)"
          using valid_secondD [OF ok] r0 by simp
        show ?thesis
        proof (cases r1)
          case Nil
          then have "utf8_decode_ignore (b0 # r0) = utf8_decode_ignore (drop (Suc 0) r0)"
            using u r0 ok by simp
          with k1 show ?thesis by (rule skip)
        next
          case r1: (Cons b2 r2)
          show ?thesis
          proof (cases "is_continuation b2")
            case False
            then have "utf8_decode_ignore (b0 # r0) = utf8_decode_ignore (drop (Suc 0) r0)"
              using u r0 r1 ok by simp
            with k1 show ?thesis by (rule skip)
          next
            case c2: True
            have k2: "list_all is_continuation (take (Suc (Suc 0)) r0)"
              using valid_secondD [OF ok] c2 r0 r1 by simp
            show ?thesis
            proof (cases r2)
              case Nil
              then have "utf8_decode_ignore (b0 # r0) =
                  utf8_decode_ignore (drop (Suc (Suc 0)) r0)"
                using u r0 r1 ok c2 by simp
              with k2 show ?thesis by (rule skip)
            next
              case r2: (Cons b3 r3)
              show ?thesis
              proof (cases "is_continuation b3")
                case True
                have "utf8_decode_ignore (b0 # r0) =
                    ((b0 - 0xF0) * 262144 + (b1 - 0x80) * 4096 + (b2 - 0x80) * 64 + (b3 - 0x80))
                      # utf8_decode_ignore (drop (Suc (Suc (Suc 0))) r0)"
                  using u r0 r1 r2 ok c2 True by simp
                moreover have "b0 # r0 = [b0, b1, b2, b3] @ drop (Suc (Suc (Suc 0))) r0"
                  using r0 r1 r2 by simp
                ultimately show ?thesis using encode_decoded4 [OF 5 ok c2 True] emit by blast
              next
                case False
                then have "utf8_decode_ignore (b0 # r0) =
                    utf8_decode_ignore (drop (Suc (Suc 0)) r0)"
                  using u r0 r1 r2 ok c2 by simp
                with k2 show ?thesis by (rule skip)
              qed
            qed
          qed
        qed
      qed
    qed
  qed
qed

text \<open>
  Continuation bytes at the front are dropped one by one. So whenever the input does
  not begin with the encoding of a character, the decoder does no more than drop its
  first byte: the continuation bytes it skips along with a broken lead byte would be
  dropped anyway.
\<close>

lemma decode_continuations:
  "list_all is_continuation xs \<Longrightarrow> utf8_decode_ignore (xs @ r) = utf8_decode_ignore r"
proof (induction xs)
  case Nil
  then show ?case by simp
next
  case (Cons x xs)
  then have "is_continuation x" by simp
  then have "(0x80 \<le> x \<and> x < 0xC2) \<or> 0xF5 \<le> x" by (simp add: is_continuation_def)
  then have "utf8_decode_ignore (x # (xs @ r)) = utf8_decode_ignore (xs @ r)"
    by (rule decode_invalid_start)
  then show ?case using Cons by simp
qed

lemma decode_drop_first:
  assumes "\<not> (\<exists>c e. utf8_encode_char c = Some e \<and> prefix e (b0 # r0))"
  shows "utf8_decode_ignore (b0 # r0) = utf8_decode_ignore r0"
proof -
  obtain k where k: "(list_all is_continuation (take k r0) \<and>
          utf8_decode_ignore (b0 # r0) = utf8_decode_ignore (drop k r0)) \<or>
     (\<exists>c enc. utf8_encode_char c = Some enc \<and> b0 # r0 = enc @ drop k r0 \<and>
        utf8_decode_ignore (b0 # r0) = c # utf8_decode_ignore (drop k r0))"
    using decode_one [of r0 b0] by blast
  have "\<not> (\<exists>c enc. utf8_encode_char c = Some enc \<and> b0 # r0 = enc @ drop k r0 \<and>
        utf8_decode_ignore (b0 # r0) = c # utf8_decode_ignore (drop k r0))"
    using assms by (metis prefixI)
  then have s: "list_all is_continuation (take k r0)"
    "utf8_decode_ignore (b0 # r0) = utf8_decode_ignore (drop k r0)"
    using k by blast+
  have "utf8_decode_ignore (take k r0 @ drop k r0) = utf8_decode_ignore (drop k r0)"
    using s(1) by (rule decode_continuations)
  then show ?thesis using s(2) by simp
qed

text \<open>
  Decoding drops bytes and substitutes nothing: the encoding of the decoded text is
  what is left of the input when the dropped bytes are taken out.
\<close>

lemma decode_reencode:
  "\<exists>e. utf8_encode (utf8_decode_ignore bs) = Some e \<and> subseq e bs"
proof (induction bs rule: length_induct)
  case (1 bs)
  show ?case
  proof (cases bs)
    case Nil
    then show ?thesis by simp
  next
    case (Cons b0 r0)
    obtain k where k: "(list_all is_continuation (take k r0) \<and>
          utf8_decode_ignore (b0 # r0) = utf8_decode_ignore (drop k r0)) \<or>
       (\<exists>c enc. utf8_encode_char c = Some enc \<and> b0 # r0 = enc @ drop k r0 \<and>
          utf8_decode_ignore (b0 # r0) = c # utf8_decode_ignore (drop k r0))"
      using decode_one [of r0 b0] by blast
    have "length (drop k r0) < length bs" using Cons by simp
    then obtain e where e: "utf8_encode (utf8_decode_ignore (drop k r0)) = Some e"
      "subseq e (drop k r0)"
      using "1.IH" by blast
    from k show ?thesis
    proof
      assume "list_all is_continuation (take k r0) \<and>
          utf8_decode_ignore (b0 # r0) = utf8_decode_ignore (drop k r0)"
      then have s: "utf8_decode_ignore (b0 # r0) = utf8_decode_ignore (drop k r0)" by blast
      have "subseq e (take k r0 @ drop k r0)" using e(2) by (rule subseq_drop_many)
      then have "subseq e (b0 # r0)" by auto
      then show ?thesis using s e(1) Cons by simp
    next
      assume "\<exists>c enc. utf8_encode_char c = Some enc \<and> b0 # r0 = enc @ drop k r0 \<and>
          utf8_decode_ignore (b0 # r0) = c # utf8_decode_ignore (drop k r0)"
      then obtain c enc where c: "utf8_encode_char c = Some enc" "b0 # r0 = enc @ drop k r0"
        "utf8_decode_ignore (b0 # r0) = c # utf8_decode_ignore (drop k r0)"
        by blast
      have "utf8_encode (utf8_decode_ignore bs) = Some (enc @ e)"
        using c(1,3) e(1) Cons by simp
      moreover have "subseq (enc @ e) bs"
        using e(2) c(2) Cons by (simp add: subseq_append')
      ultimately show ?thesis by blast
    qed
  qed
qed

lemma encode_SomeD: "utf8_encode s = Some b \<Longrightarrow> list_all scalar s"
proof (induction s arbitrary: b)
  case Nil
  then show ?case by simp
next
  case (Cons c cs)
  then obtain b1 b2 where "utf8_encode_char c = Some b1" "utf8_encode cs = Some b2"
    by (auto split: option.splits)
  then show ?case using Cons.IH encode_char_SomeD by simp
qed

lemma decode_scalar: "list_all scalar (utf8_decode_ignore bs)"
  using decode_reencode [of bs] encode_SomeD by blast

section \<open>Properties of newline translation\<close>

lemma un_other: "c \<noteq> 0x0D \<Longrightarrow> universal_newlines (c # s) = c # universal_newlines s"
  by simp

lemma un_cr_end: "universal_newlines [0x0D] = [0x0A]"
  by simp

lemma un_cr_lf: "universal_newlines (0x0D # 0x0A # s) = 0x0A # universal_newlines s"
  by simp

lemma un_cr: "d \<noteq> 0x0A \<Longrightarrow> universal_newlines (0x0D # d # s) = 0x0A # universal_newlines (d # s)"
  by (simp del: universal_newlines.simps add: universal_newlines.simps(2) [of "0x0D"])

declare universal_newlines.simps(2) [simp del]

lemma universal_newlines_step:
  "\<exists>k. universal_newlines (c # s) = (if c = 0x0D then 0x0A else c) # universal_newlines (drop k s)"
proof (cases "c = 0x0D")
  case False
  then have "universal_newlines (c # s) =
      (if c = 0x0D then 0x0A else c) # universal_newlines (drop 0 s)"
    by (simp add: un_other)
  then show ?thesis by blast
next
  case cr: True
  show ?thesis
  proof (cases s)
    case Nil
    then have "universal_newlines (c # s) =
        (if c = 0x0D then 0x0A else c) # universal_newlines (drop 0 s)"
      using cr by (simp add: un_cr_end)
    then show ?thesis by blast
  next
    case (Cons d ds)
    show ?thesis
    proof (cases "d = 0x0A")
      case True
      then have "universal_newlines (c # s) =
          (if c = 0x0D then 0x0A else c) # universal_newlines (drop 1 s)"
        using cr Cons by (simp add: un_cr_lf)
      then show ?thesis by blast
    next
      case False
      then have "universal_newlines (c # s) =
          (if c = 0x0D then 0x0A else c) # universal_newlines (drop 0 s)"
        using cr Cons by (simp add: un_cr)
      then show ?thesis by blast
    qed
  qed
qed

lemma list_all_drop: "list_all P s \<Longrightarrow> list_all P (drop k s)"
  by (metis append_take_drop_id list_all_append)

lemma universal_newlines_all:
  assumes pq: "\<And>c. P c \<Longrightarrow> Q (if c = 0x0D then 0x0A else c)"
  shows "list_all P s \<Longrightarrow> list_all Q (universal_newlines s)"
proof (induction s rule: length_induct)
  case (1 s)
  show ?case
  proof (cases s)
    case Nil
    then show ?thesis by simp
  next
    case (Cons c cs)
    obtain k where k:
      "universal_newlines (c # cs) = (if c = 0x0D then 0x0A else c) # universal_newlines (drop k cs)"
      using universal_newlines_step by blast
    have p: "P c" "list_all P cs" using "1.prems" Cons by simp_all
    have "length (drop k cs) < length s" using Cons by simp
    moreover have "list_all P (drop k cs)" using p(2) by (rule list_all_drop)
    ultimately have "list_all Q (universal_newlines (drop k cs))" using "1.IH" by blast
    then show ?thesis using k Cons pq [OF p(1)] by simp
  qed
qed

lemma universal_newlines_no_cr: "list_all (\<lambda>c. c \<noteq> 0x0D) (universal_newlines s)"
proof -
  have "list_all (\<lambda>c. True) s" by (simp add: list_all_iff)
  then show ?thesis by (rule universal_newlines_all [rotated]) simp
qed

lemma universal_newlines_scalar: "list_all scalar s \<Longrightarrow> list_all scalar (universal_newlines s)"
proof -
  have "\<And>c. scalar c \<Longrightarrow> scalar (if c = 0x0D then 0x0A else c)"
    by (simp add: scalar_def)
  then show "list_all scalar s \<Longrightarrow> list_all scalar (universal_newlines s)"
    by (rule universal_newlines_all)
qed

lemma universal_newlines_id: "list_all (\<lambda>c. c \<noteq> 0x0D) s \<Longrightarrow> universal_newlines s = s"
  by (induction s) (simp_all add: un_other)

lemma translate_newlines_Cons:
  "translate_newlines l (c # cs) = (if c = 0x0A then l else [c]) @ translate_newlines l cs"
  by (simp add: translate_newlines_def)

lemma translate_newlines_Nil: "translate_newlines l [] = []"
  by (simp add: translate_newlines_def)

lemma translate_newlines_posix: "translate_newlines (os_linesep Posix) s = s"
  by (induction s) (simp_all add: translate_newlines_Cons translate_newlines_Nil os_linesep_def)

lemma linesep_scalar: "list_all scalar (os_linesep p)"
  by (cases p) (simp_all add: os_linesep_def scalar_def)

lemma translate_newlines_scalar:
  "list_all scalar s \<Longrightarrow> list_all scalar (translate_newlines (os_linesep p) s)"
  by (induction s) (simp_all add: translate_newlines_Cons translate_newlines_Nil linesep_scalar)

lemma newlines_roundtrip:
  "list_all (\<lambda>c. c \<noteq> 0x0D) s \<Longrightarrow>
   universal_newlines (translate_newlines (os_linesep p) s) = s"
proof (induction s)
  case Nil
  then show ?case by (simp add: translate_newlines_Nil)
next
  case (Cons c cs)
  then have ih: "universal_newlines (translate_newlines (os_linesep p) cs) = cs"
    and c: "c \<noteq> 0x0D" by simp_all
  show ?case
  proof (cases "c = 0x0A")
    case False
    then show ?thesis using ih c by (simp add: translate_newlines_Cons un_other)
  next
    case True
    show ?thesis
    proof (cases p)
      case Windows
      then show ?thesis using ih True
        by (simp add: translate_newlines_Cons os_linesep_def un_cr_lf)
    next
      case Posix
      then show ?thesis using ih True
        by (simp add: translate_newlines_Cons os_linesep_def un_other)
    qed
  qed
qed

section \<open>Properties of reading and writing text\<close>

lemma bytes_roundtrip:
  "list_all (\<lambda>x. x < 256) b \<Longrightarrow> map unat (map of_nat b :: pybytes) = b"
  by (induction b) (simp_all add: unat_of_nat)

lemma decode_file_clean:
  "list_all scalar (decode_file b)" "list_all (\<lambda>c. c \<noteq> 0x0D) (decode_file b)"
  unfolding decode_file_def
  by (simp_all add: universal_newlines_scalar decode_scalar universal_newlines_no_cr)

lemma encode_file_total: "list_all scalar s \<Longrightarrow> \<exists>b. encode_file p s = Some b"
proof -
  assume "list_all scalar s"
  then have "list_all scalar (translate_newlines (os_linesep p) s)"
    by (rule translate_newlines_scalar)
  then obtain b where "utf8_encode (translate_newlines (os_linesep p) s) = Some b"
    using encode_scalar by blast
  then show ?thesis by (simp add: encode_file_def)
qed

lemma decode_encode_file:
  assumes "encode_file p s = Some b" "list_all (\<lambda>c. c \<noteq> 0x0D) s"
  shows "decode_file b = s"
proof -
  obtain n where n: "utf8_encode (translate_newlines (os_linesep p) s) = Some n"
    "b = map of_nat n"
    using assms(1) by (auto simp: encode_file_def split: option.splits)
  have "map unat b = n" using n(2) bytes_roundtrip [OF encode_bytes [OF n(1)]] by simp
  then have "utf8_decode_ignore (map unat b) = translate_newlines (os_linesep p) s"
    using decode_encode [OF n(1)] by simp
  then show ?thesis using newlines_roundtrip [OF assms(2)] by (simp add: decode_file_def)
qed

lemma decode_ascii_list:
  "list_all (\<lambda>c. c < 0x80) s \<Longrightarrow> utf8_decode_ignore (s @ r) = s @ utf8_decode_ignore r"
  by (induction s) (simp_all add: decode_ascii)

lemma decode_file_ascii:
  assumes "list_all (\<lambda>c. c < 0x80) s" "list_all (\<lambda>c. c \<noteq> 0x0D) s"
  shows "decode_file (map of_nat s) = s"
proof -
  have "list_all (\<lambda>x. x < 256) s" using assms(1) by (induction s) auto
  then have "map unat (map of_nat s :: pybytes) = s" by (rule bytes_roundtrip)
  then have "utf8_decode_ignore (map unat (map of_nat s :: pybytes)) = s"
    using decode_ascii_list [OF assms(1), of "[]"] by simp
  then show ?thesis using universal_newlines_id [OF assms(2)] by (simp add: decode_file_def)
qed

lemma write_text_ok:
  assumes "fs w p \<noteq> Some Dir" "encode_file (plat w) s = Some b"
  shows "write_text w p s = (w\<lparr>fs := (fs w)(p \<mapsto> File b), log := log w @ [Wrote p b]\<rparr>, None)"
  using assms by (auto simp: write_text_def split: option.splits node.splits)

section \<open>Properties of the paths\<close>

lemma BACKUP_eq: "BACKUP p = TARGET p @ str ''.bak_lite''"
  by (cases p)
     (simp_all add: BACKUP_def TARGET_def ROOT_def joinpath_def with_suffix_def path_name_def
       path_suffix_def is_sep_def os_sep_def str_def Let_def)

lemma TARGET_not_empty: "TARGET p \<noteq> []"
  by (simp add: TARGET_def joinpath_def str_def)

lemma BACKUP_not_TARGET: "BACKUP p \<noteq> TARGET p" "TARGET p \<noteq> BACKUP p"
  by (simp_all add: BACKUP_eq str_def)

section \<open>Properties of the patcher's constants\<close>

lemma sentinel_not_empty: "sentinel \<noteq> []"
  by (simp add: sentinel_def str_def)

lemma replacement_has_sentinel:
  "replacement =
     (str ''import os\<newline>'' @
      str ''if str(os.getenv('SCIWING_LITE','' @ [0x27, 0x27] @
        str '')).lower() in ('1','true','yes','y'):\<newline>'' @
      str ''    BowElmoEmbedder = None  # LITE '' @ [0x6A21, 0x5F0F, 0xFF1A, 0x4E0D, 0x89E6, 0x53D1] @
        str '' allennlp '' @ [0x4F9D, 0x8D56, 0x0A] @
      str ''else:\<newline>'' @ str ''    '') @ sentinel @ [0x0A]"
  by (simp add: replacement_def replacement_lines_def sentinel_def str_def)

lemma replacement_clean: "clean_text replacement"
  by (simp add: clean_text_def replacement_def replacement_lines_def str_def scalar_def)

lemma sentinel_ascii: "list_all (\<lambda>c. c < 0x80) sentinel" "list_all (\<lambda>c. c \<noteq> 0x0D) sentinel"
  by (simp_all add: sentinel_def str_def)

lemma replacement_longer: "length sentinel < length replacement"
  by (simp add: replacement_has_sentinel)

section \<open>Properties of \<open>main\<close> of the patcher\<close>

lemma clean_text_append: "clean_text (a @ b) \<longleftrightarrow> clean_text a \<and> clean_text b"
  by (auto simp: clean_text_def)

lemma decode_file_clean_text: "clean_text (decode_file b)"
  by (simp add: clean_text_def decode_file_clean)

lemma read_back:
  assumes "clean_text s"
  shows "\<exists>b. encode_file p s = Some b \<and> decode_file b = s"
proof -
  obtain b where b: "encode_file p s = Some b"
    using assms encode_file_total [of s p] by (auto simp: clean_text_def)
  have "decode_file b = s" using b assms by (intro decode_encode_file) (auto simp: clean_text_def)
  then show ?thesis using b by blast
qed

lemma str_replace_sentinel:
  "str_replace sentinel new count s = str_replace_from sentinel new count s"
  by (simp add: str_replace_def sentinel_not_empty)

lemma patch_main_missing:
  "\<not> exists_path w (TARGET (plat w)) \<Longrightarrow>
   patch_main w = (w, Some (Exc SystemExit (missing_message (plat w))))"
  by (simp add: patch_main_def)

lemma patch_main_skips:
  assumes "fs w (TARGET (plat w)) = Some (File b)" "\<not> str_contains sentinel (decode_file b)"
  shows "patch_main w = (print skipped_message w, None)"
  using assms by (simp add: patch_main_def exists_path_def TARGET_not_empty read_text_def)

lemma patch_main_patches:
  assumes t: "fs w (TARGET (plat w)) = Some (File b)"
    and s: "str_contains sentinel (decode_file b)"
    and d: "fs w (BACKUP (plat w)) \<noteq> Some Dir"
  shows "\<exists>pre post bk tg.
     decode_file b = pre @ sentinel @ post \<and>
     (\<forall>pre' post'. decode_file b = pre' @ sentinel @ post' \<longrightarrow> length pre \<le> length pre') \<and>
     encode_file (plat w) (decode_file b) = Some bk \<and>
     encode_file (plat w) (pre @ replacement @ post) = Some tg \<and>
     decode_file tg = pre @ replacement @ post \<and>
     patch_main w =
       (w\<lparr>fs := (fs w)(BACKUP (plat w) \<mapsto> File bk, TARGET (plat w) \<mapsto> File tg),
          log := log w @ [Wrote (BACKUP (plat w)) bk, Wrote (TARGET (plat w)) tg,
                          Printed (patched_message (plat w))]\<rparr>, None)"
proof -
  obtain pre post where src: "decode_file b = pre @ sentinel @ post"
    and first: "\<forall>pre' post'. decode_file b = pre' @ sentinel @ post' \<longrightarrow> length pre \<le> length pre'"
    and rep: "str_replace_from sentinel replacement (Some 1) (decode_file b) = pre @ replacement @ post"
    using replace_first [OF sentinel_not_empty s] by blast
  have "clean_text (pre @ sentinel @ post)" using decode_file_clean_text [of b] src by simp
  then have cl: "clean_text (pre @ replacement @ post)"
    using replacement_clean by (simp add: clean_text_append)
  obtain bk where bk: "encode_file (plat w) (decode_file b) = Some bk"
    using read_back [OF decode_file_clean_text] by blast
  obtain tg where tg: "encode_file (plat w) (pre @ replacement @ post) = Some tg"
    "decode_file tg = pre @ replacement @ post"
    using read_back [OF cl] by blast
  let ?w1 = "w\<lparr>fs := (fs w)(BACKUP (plat w) \<mapsto> File bk),
                log := log w @ [Wrote (BACKUP (plat w)) bk]\<rparr>"
  have w1: "write_text w (BACKUP (plat w)) (decode_file b) = (?w1, None)"
    using d bk by (rule write_text_ok)
  have "fs ?w1 (TARGET (plat ?w1)) \<noteq> Some Dir" using t by (simp add: BACKUP_not_TARGET)
  moreover have "encode_file (plat ?w1) (pre @ replacement @ post) = Some tg" using tg(1) by simp
  ultimately have w2: "write_text ?w1 (TARGET (plat ?w1)) (pre @ replacement @ post) =
      (?w1\<lparr>fs := (fs ?w1)(TARGET (plat ?w1) \<mapsto> File tg),
            log := log ?w1 @ [Wrote (TARGET (plat ?w1)) tg]\<rparr>, None)"
    by (rule write_text_ok)
  have "patch_main w =
       (w\<lparr>fs := (fs w)(BACKUP (plat w) \<mapsto> File bk, TARGET (plat w) \<mapsto> File tg),
          log := log w @ [Wrote (BACKUP (plat w)) bk, Wrote (TARGET (plat w)) tg,
                          Printed (patched_message (plat w))]\<rparr>, None)"
    using t s w1 w2
    by (simp add: patch_main_def exists_path_def TARGET_not_empty read_text_def
        str_replace_sentinel rep print_def del: One_nat_def)
  then show ?thesis using src first bk tg by blast
qed

section \<open>Properties of the example files\<close>

lemma encode_ascii: "list_all (\<lambda>c. c < 0x80) s \<Longrightarrow> utf8_encode s = Some s"
  by (induction s) (simp_all add: utf8_encode_char_def)

lemma translate_no_lf: "list_all (\<lambda>c. c \<noteq> 0x0A) s \<Longrightarrow> translate_newlines l s = s"
  by (induction s) (simp_all add: translate_newlines_Cons translate_newlines_Nil)

lemma sentinel_no_lf: "list_all (\<lambda>c. c \<noteq> 0x0A) sentinel"
  by (simp add: sentinel_def str_def)

lemma encode_file_sentinel: "encode_file p sentinel = Some (map of_nat sentinel)"
  by (simp add: encode_file_def translate_no_lf [OF sentinel_no_lf] encode_ascii [OF sentinel_ascii(1)])

lemma decode_file_sentinel: "decode_file (map of_nat sentinel) = sentinel"
  using sentinel_ascii by (rule decode_file_ascii)

lemma ascii_lt_256: "list_all (\<lambda>c. c < 0x80) s \<Longrightarrow> list_all (\<lambda>x. x < 256) (s::nat list)"
  by (induction s) auto

lemma decode_file_stray: "decode_file (map of_nat sentinel @ [0xFF]) = sentinel"
proof -
  have "list_all (\<lambda>x. x < 256) sentinel" using sentinel_ascii(1) by (rule ascii_lt_256)
  then have "map unat (map of_nat sentinel @ [0xFF] :: pybytes) = sentinel @ [0xFF]"
    using bytes_roundtrip by simp
  moreover have "utf8_decode_ignore [0xFF] = []"
    using decode_invalid_start [of "0xFF" "[]"] by simp
  ultimately have "utf8_decode_ignore (map unat (map of_nat sentinel @ [0xFF] :: pybytes)) = sentinel"
    using decode_ascii_list [OF sentinel_ascii(1), of "[0xFF]"] by simp
  then show ?thesis using universal_newlines_id [OF sentinel_ascii(2)] by (simp add: decode_file_def)
qed

lemma decode_file_lone: "decode_file [0xFF] = []"
  using decode_invalid_start [of "0xFF" "[]"] by (simp add: decode_file_def)

lemma sentinel_in_sentinel: "str_contains sentinel sentinel"
  by (rule str_containsI [where pre = "[]" and post = "[]"]) simp

lemma sentinel_only_facts:
  "plat (sentinel_only p) = p"
  "fs (sentinel_only p) (TARGET p) = Some (File (map of_nat sentinel))"
  "fs (sentinel_only p) (BACKUP p) \<noteq> Some Dir"
  by (simp_all add: sentinel_only_def bare_world_def BACKUP_not_TARGET)

lemma stray_byte_facts:
  "plat (stray_byte p) = p"
  "fs (stray_byte p) (TARGET p) = Some (File (map of_nat sentinel @ [0xFF]))"
  "fs (stray_byte p) (BACKUP p) \<noteq> Some Dir"
  by (simp_all add: stray_byte_def bare_world_def BACKUP_not_TARGET)

section \<open>Properties of the runs of the patcher\<close>

text \<open>
  C3, as the code has it. When the target file does not exist, \<open>main\<close> ends with
  \<open>SystemExit\<close>, whose message names the target; nothing is written. \<open>SystemExit\<close> is
  neither a \<open>FileNotFoundError\<close> nor an \<open>Exception\<close>.
\<close>

theorem C3_missing_target_exits:
  assumes "\<not> exists_path w (TARGET (plat w))"
  shows "patch_main w =
      (w, Some (Exc SystemExit ([0x627E, 0x4E0D, 0x5230, 0x6587, 0x4EF6] @ str '': '' @ TARGET (plat w)))) \<and>
    isinstance (Exc SystemExit (missing_message (plat w))) SystemExit \<and>
    \<not> isinstance (Exc SystemExit (missing_message (plat w))) FileNotFoundError \<and>
    \<not> isinstance (Exc SystemExit (missing_message (plat w))) Exception"
  using assms by (simp add: patch_main_def missing_message_def isinstance_def)

theorem C3_missing_target_exits_witness:
  "\<not> exists_path (bare_world Windows) (TARGET (plat (bare_world Windows))) \<and>
   patch_main (bare_world Windows) =
     (bare_world Windows, Some (Exc SystemExit
        ([0x627E, 0x4E0D, 0x5230, 0x6587, 0x4EF6] @ str '': '' @ TARGET (plat (bare_world Windows)))))"
proof -
  have h: "\<not> exists_path (bare_world Windows) (TARGET (plat (bare_world Windows)))"
    by (simp add: exists_path_def bare_world_def)
  show ?thesis using C3_missing_target_exits [OF h] h by blast
qed

text \<open>
  The claim as written fails on a machine with no file at all: the exception that ends
  \<open>main\<close> is no instance of \<open>FileNotFoundError\<close>.
\<close>

theorem C3_counterexample:
  "\<not> exists_path (bare_world Windows) (TARGET Windows) \<and>
   snd (patch_main (bare_world Windows)) = Some (Exc SystemExit (missing_message Windows)) \<and>
   \<not> isinstance (Exc SystemExit (missing_message Windows)) FileNotFoundError"
proof -
  have p: "plat (bare_world Windows) = Windows" by (simp add: bare_world_def)
  have h: "\<not> exists_path (bare_world Windows) (TARGET (plat (bare_world Windows)))"
    by (simp add: exists_path_def bare_world_def)
  show ?thesis using patch_main_missing [OF h] h by (simp add: p isinstance_def)
qed

text \<open>
  C2 fails on the code. After a patching run the text of the target still holds the
  sentinel: the last line of the block that replaced it is the import itself.
\<close>

theorem C2_patched_target_keeps_sentinel:
  assumes "fs w (TARGET (plat w)) = Some (File b)"
    and "str_contains sentinel (decode_file b)"
    and "fs w (BACKUP (plat w)) \<noteq> Some Dir"
  shows "\<exists>tg. snd (patch_main w) = None \<and>
     fs (fst (patch_main w)) (TARGET (plat w)) = Some (File tg) \<and>
     str_contains sentinel (decode_file tg)"
proof -
  obtain pre post bk tg where
    d: "decode_file tg = pre @ replacement @ post"
    and m: "patch_main w =
       (w\<lparr>fs := (fs w)(BACKUP (plat w) \<mapsto> File bk, TARGET (plat w) \<mapsto> File tg),
          log := log w @ [Wrote (BACKUP (plat w)) bk, Wrote (TARGET (plat w)) tg,
                          Printed (patched_message (plat w))]\<rparr>, None)"
    using patch_main_patches [OF assms] by blast
  obtain r where "replacement = r @ sentinel @ [0x0A]" using replacement_has_sentinel by blast
  then have "decode_file tg = (pre @ r) @ sentinel @ ([0x0A] @ post)" using d by simp
  then have "str_contains sentinel (decode_file tg)" by (rule str_containsI)
  then show ?thesis using m by simp
qed

theorem C2_patched_target_keeps_sentinel_witness:
  "fs (sentinel_only Windows) (TARGET (plat (sentinel_only Windows))) =
     Some (File (map of_nat sentinel)) \<and>
   str_contains sentinel (decode_file (map of_nat sentinel)) \<and>
   fs (sentinel_only Windows) (BACKUP (plat (sentinel_only Windows))) \<noteq> Some Dir \<and>
   (\<exists>tg. snd (patch_main (sentinel_only Windows)) = None \<and>
     fs (fst (patch_main (sentinel_only Windows))) (TARGET (plat (sentinel_only Windows))) =
       Some (File tg) \<and>
     str_contains sentinel (decode_file tg))"
proof -
  have a: "fs (sentinel_only Windows) (TARGET (plat (sentinel_only Windows))) =
     Some (File (map of_nat sentinel))"
    by (simp add: sentinel_only_facts)
  have b: "str_contains sentinel (decode_file (map of_nat sentinel))"
    by (simp add: decode_file_sentinel sentinel_in_sentinel)
  have c: "fs (sentinel_only Windows) (BACKUP (plat (sentinel_only Windows))) \<noteq> Some Dir"
    by (simp add: sentinel_only_facts)
  show ?thesis using C2_patched_target_keeps_sentinel [OF a b c] a b c by blast
qed

text \<open>
  C1 fails on the code. After a patching run, a second run finds the sentinel again
  (in the block the first run wrote), overwrites the backup with the text the first run
  left in the target, and patches the target a second time: its content changes again.
\<close>

theorem C1_second_run_patches_again:
  assumes "fs w (TARGET (plat w)) = Some (File b)"
    and "str_contains sentinel (decode_file b)"
    and "fs w (BACKUP (plat w)) \<noteq> Some Dir"
  shows "\<exists>tg1 tg2.
     fs (fst (patch_main w)) (TARGET (plat w)) = Some (File tg1) \<and>
     fs (fst (patch_main (fst (patch_main w)))) (TARGET (plat w)) = Some (File tg2) \<and>
     tg2 \<noteq> tg1 \<and>
     fs (fst (patch_main (fst (patch_main w)))) (BACKUP (plat w)) = Some (File tg1) \<and>
     log (fst (patch_main (fst (patch_main w)))) =
       log (fst (patch_main w)) @
       [Wrote (BACKUP (plat w)) tg1, Wrote (TARGET (plat w)) tg2,
        Printed (patched_message (plat w))]"
proof -
  obtain pre post bk tg1 where
    e1: "encode_file (plat w) (pre @ replacement @ post) = Some tg1"
    and d1: "decode_file tg1 = pre @ replacement @ post"
    and m1: "patch_main w =
       (w\<lparr>fs := (fs w)(BACKUP (plat w) \<mapsto> File bk, TARGET (plat w) \<mapsto> File tg1),
          log := log w @ [Wrote (BACKUP (plat w)) bk, Wrote (TARGET (plat w)) tg1,
                          Printed (patched_message (plat w))]\<rparr>, None)"
    using patch_main_patches [OF assms] by blast
  define w1 where "w1 =
       w\<lparr>fs := (fs w)(BACKUP (plat w) \<mapsto> File bk, TARGET (plat w) \<mapsto> File tg1),
          log := log w @ [Wrote (BACKUP (plat w)) bk, Wrote (TARGET (plat w)) tg1,
                          Printed (patched_message (plat w))]\<rparr>"
  have r1: "fst (patch_main w) = w1" using m1 by (simp add: w1_def)
  have p1: "plat w1 = plat w" by (simp add: w1_def)
  have t1: "fs w1 (TARGET (plat w1)) = Some (File tg1)" by (simp add: w1_def)
  have b1: "fs w1 (BACKUP (plat w1)) \<noteq> Some Dir" by (simp add: w1_def BACKUP_not_TARGET)
  obtain r where "replacement = r @ sentinel @ [0x0A]" using replacement_has_sentinel by blast
  then have "decode_file tg1 = (pre @ r) @ sentinel @ ([0x0A] @ post)" using d1 by simp
  then have s1: "str_contains sentinel (decode_file tg1)" by (rule str_containsI)
  obtain pre2 post2 bk2 tg2 where
    src2: "decode_file tg1 = pre2 @ sentinel @ post2"
    and e2: "encode_file (plat w1) (decode_file tg1) = Some bk2"
    and d2: "decode_file tg2 = pre2 @ replacement @ post2"
    and m2: "patch_main w1 =
       (w1\<lparr>fs := (fs w1)(BACKUP (plat w1) \<mapsto> File bk2, TARGET (plat w1) \<mapsto> File tg2),
          log := log w1 @ [Wrote (BACKUP (plat w1)) bk2, Wrote (TARGET (plat w1)) tg2,
                          Printed (patched_message (plat w1))]\<rparr>, None)"
    using patch_main_patches [OF t1 s1 b1] by blast
  have bk2: "bk2 = tg1" using e1 e2 d1 p1 by simp
  have "length (decode_file tg2) \<noteq> length (decode_file tg1)"
    using src2 d2 replacement_longer by simp
  then have ne: "tg2 \<noteq> tg1" by auto
  have r2: "fst (patch_main w1) =
       w1\<lparr>fs := (fs w1)(BACKUP (plat w) \<mapsto> File tg1, TARGET (plat w) \<mapsto> File tg2),
          log := log w1 @ [Wrote (BACKUP (plat w)) tg1, Wrote (TARGET (plat w)) tg2,
                          Printed (patched_message (plat w))]\<rparr>"
    using m2 by (simp add: p1 bk2)
  have "fs (fst (patch_main w)) (TARGET (plat w)) = Some (File tg1) \<and>
     fs (fst (patch_main (fst (patch_main w)))) (TARGET (plat w)) = Some (File tg2) \<and>
     tg2 \<noteq> tg1 \<and>
     fs (fst (patch_main (fst (patch_main w)))) (BACKUP (plat w)) = Some (File tg1) \<and>
     log (fst (patch_main (fst (patch_main w)))) =
       log (fst (patch_main w)) @
       [Wrote (BACKUP (plat w)) tg1, Wrote (TARGET (plat w)) tg2,
        Printed (patched_message (plat w))]"
    unfolding r1 r2 using t1 ne by (simp add: p1 BACKUP_not_TARGET)
  then show ?thesis by blast
qed

theorem C1_second_run_patches_again_witness:
  "fs (sentinel_only Posix) (TARGET (plat (sentinel_only Posix))) =
     Some (File (map of_nat sentinel)) \<and>
   str_contains sentinel (decode_file (map of_nat sentinel)) \<and>
   fs (sentinel_only Posix) (BACKUP (plat (sentinel_only Posix))) \<noteq> Some Dir \<and>
   (\<exists>tg1 tg2.
     fs (fst (patch_main (sentinel_only Posix))) (TARGET (plat (sentinel_only Posix))) =
       Some (File tg1) \<and>
     fs (fst (patch_main (fst (patch_main (sentinel_only Posix)))))
       (TARGET (plat (sentinel_only Posix))) = Some (File tg2) \<and>
     tg2 \<noteq> tg1 \<and>
     fs (fst (patch_main (fst (patch_main (sentinel_only Posix)))))
       (BACKUP (plat (sentinel_only Posix))) = Some (File tg1) \<and>
     log (fst (patch_main (fst (patch_main (sentinel_only Posix))))) =
       log (fst (patch_main (sentinel_only Posix))) @
       [Wrote (BACKUP (plat (sentinel_only Posix))) tg1,
        Wrote (TARGET (plat (sentinel_only Posix))) tg2,
        Printed (patched_message (plat (sentinel_only Posix)))])"
proof -
  have a: "fs (sentinel_only Posix) (TARGET (plat (sentinel_only Posix))) =
     Some (File (map of_nat sentinel))"
    by (simp add: sentinel_only_facts)
  have b: "str_contains sentinel (decode_file (map of_nat sentinel))"
    by (simp add: decode_file_sentinel sentinel_in_sentinel)
  have c: "fs (sentinel_only Posix) (BACKUP (plat (sentinel_only Posix))) \<noteq> Some Dir"
    by (simp add: sentinel_only_facts)
  show ?thesis using C1_second_run_patches_again [OF a b c] a b c by blast
qed

text \<open>
  C5, as the code has it. On a patching run (the sentinel is in the text and the backup
  path is not a directory) the backup is written first and the target second; the
  backup holds the encoding of the text as it was read, with undecodable bytes dropped
  and line ends translated. It equals the bytes of the target before the run whenever
  those are the encoding, with the platform's line ends, of some text without carriage
  returns.
\<close>

theorem C5_backup_written_before_target:
  assumes "fs w (TARGET (plat w)) = Some (File b)"
    and "str_contains sentinel (decode_file b)"
    and "fs w (BACKUP (plat w)) \<noteq> Some Dir"
  shows "\<exists>bk tg.
     snd (patch_main w) = None \<and>
     log (fst (patch_main w)) =
       log w @ [Wrote (BACKUP (plat w)) bk, Wrote (TARGET (plat w)) tg,
                Printed (patched_message (plat w))] \<and>
     fs (fst (patch_main w)) (BACKUP (plat w)) = Some (File bk) \<and>
     encode_file (plat w) (decode_file b) = Some bk \<and>
     (\<forall>s. list_all (\<lambda>c. c \<noteq> 0x0D) s \<and> encode_file (plat w) s = Some b \<longrightarrow> bk = b)"
proof -
  obtain pre post bk tg where
    e: "encode_file (plat w) (decode_file b) = Some bk"
    and m: "patch_main w =
       (w\<lparr>fs := (fs w)(BACKUP (plat w) \<mapsto> File bk, TARGET (plat w) \<mapsto> File tg),
          log := log w @ [Wrote (BACKUP (plat w)) bk, Wrote (TARGET (plat w)) tg,
                          Printed (patched_message (plat w))]\<rparr>, None)"
    using patch_main_patches [OF assms] by blast
  have v: "\<forall>s. list_all (\<lambda>c. c \<noteq> 0x0D) s \<and> encode_file (plat w) s = Some b \<longrightarrow> bk = b"
  proof (intro allI impI)
    fix s
    assume h: "list_all (\<lambda>c. c \<noteq> 0x0D) s \<and> encode_file (plat w) s = Some b"
    then have "decode_file b = s" using decode_encode_file by blast
    then show "bk = b" using e h by simp
  qed
  have "snd (patch_main w) = None \<and>
     log (fst (patch_main w)) =
       log w @ [Wrote (BACKUP (plat w)) bk, Wrote (TARGET (plat w)) tg,
                Printed (patched_message (plat w))] \<and>
     fs (fst (patch_main w)) (BACKUP (plat w)) = Some (File bk)"
    using m by (simp add: BACKUP_not_TARGET)
  then show ?thesis using e v by blast
qed

theorem C5_backup_written_before_target_witness:
  "fs (sentinel_only Posix) (TARGET (plat (sentinel_only Posix))) =
     Some (File (map of_nat sentinel)) \<and>
   str_contains sentinel (decode_file (map of_nat sentinel)) \<and>
   fs (sentinel_only Posix) (BACKUP (plat (sentinel_only Posix))) \<noteq> Some Dir \<and>
   list_all (\<lambda>c. c \<noteq> 0x0D) sentinel \<and>
   encode_file (plat (sentinel_only Posix)) sentinel = Some (map of_nat sentinel) \<and>
   (\<exists>tg.
     log (fst (patch_main (sentinel_only Posix))) =
       log (sentinel_only Posix) @
       [Wrote (BACKUP (plat (sentinel_only Posix))) (map of_nat sentinel),
        Wrote (TARGET (plat (sentinel_only Posix))) tg,
        Printed (patched_message (plat (sentinel_only Posix)))] \<and>
     fs (fst (patch_main (sentinel_only Posix))) (BACKUP (plat (sentinel_only Posix))) =
       Some (File (map of_nat sentinel)))"
proof -
  have a: "fs (sentinel_only Posix) (TARGET (plat (sentinel_only Posix))) =
     Some (File (map of_nat sentinel))"
    by (simp add: sentinel_only_facts)
  have b: "str_contains sentinel (decode_file (map of_nat sentinel))"
    by (simp add: decode_file_sentinel sentinel_in_sentinel)
  have c: "fs (sentinel_only Posix) (BACKUP (plat (sentinel_only Posix))) \<noteq> Some Dir"
    by (simp add: sentinel_only_facts)
  have d: "list_all (\<lambda>c. c \<noteq> 0x0D) sentinel" by (rule sentinel_ascii(2))
  have e: "encode_file (plat (sentinel_only Posix)) sentinel = Some (map of_nat sentinel)"
    by (rule encode_file_sentinel)
  show ?thesis using C5_backup_written_before_target [OF a b c] a b c d e by metis
qed

text \<open>
  The claim as written fails on a target that holds the sentinel line and one byte that
  is not UTF-8: the run patches, and the backup lacks that byte.
\<close>

theorem C5_counterexample:
  "fs (stray_byte Posix) (TARGET Posix) = Some (File (map of_nat sentinel @ [0xFF])) \<and>
   str_contains sentinel (decode_file (map of_nat sentinel @ [0xFF])) \<and>
   snd (patch_main (stray_byte Posix)) = None \<and>
   fs (fst (patch_main (stray_byte Posix))) (BACKUP Posix) = Some (File (map of_nat sentinel)) \<and>
   File (map of_nat sentinel) \<noteq> File (map of_nat sentinel @ [0xFF])"
proof -
  have a: "fs (stray_byte Posix) (TARGET (plat (stray_byte Posix))) =
     Some (File (map of_nat sentinel @ [0xFF]))"
    by (simp add: stray_byte_facts)
  have b: "str_contains sentinel (decode_file (map of_nat sentinel @ [0xFF]))"
    by (simp add: decode_file_stray sentinel_in_sentinel)
  have c: "fs (stray_byte Posix) (BACKUP (plat (stray_byte Posix))) \<noteq> Some Dir"
    by (simp add: stray_byte_facts)
  obtain pre post bk tg where
    e: "encode_file (plat (stray_byte Posix)) (decode_file (map of_nat sentinel @ [0xFF])) = Some bk"
    and m: "patch_main (stray_byte Posix) =
       ((stray_byte Posix)\<lparr>fs := (fs (stray_byte Posix))
            (BACKUP (plat (stray_byte Posix)) \<mapsto> File bk,
             TARGET (plat (stray_byte Posix)) \<mapsto> File tg),
          log := log (stray_byte Posix) @
            [Wrote (BACKUP (plat (stray_byte Posix))) bk,
             Wrote (TARGET (plat (stray_byte Posix))) tg,
             Printed (patched_message (plat (stray_byte Posix)))]\<rparr>, None)"
    using patch_main_patches [OF a b c] by blast
  have bk: "bk = map of_nat sentinel"
    using e by (simp add: decode_file_stray encode_file_sentinel)
  show ?thesis using a b m bk by (simp add: stray_byte_facts BACKUP_not_TARGET)
qed

text \<open>
  C8. On a patching run the text is cut at the first occurrence of the sentinel; what
  stands before and after it is kept, and the sentinel itself gives way to the block:
  \<open>import os\<close>, a test of \<open>SCIWING_LITE\<close> (lowercased) against \<open>1\<close>, \<open>true\<close>, \<open>yes\<close>
  and \<open>y\<close>, the assignment of \<open>None\<close> to \<open>BowElmoEmbedder\<close>, and under \<open>else\<close> the
  original import. The target holds the encoding of the result.
\<close>

theorem C8_first_occurrence_replaced:
  assumes "fs w (TARGET (plat w)) = Some (File b)"
    and "str_contains sentinel (decode_file b)"
    and "fs w (BACKUP (plat w)) \<noteq> Some Dir"
  shows "\<exists>pre post tg.
     decode_file b = pre @ sentinel @ post \<and>
     (\<forall>pre' post'. decode_file b = pre' @ sentinel @ post' \<longrightarrow> length pre \<le> length pre') \<and>
     str_replace sentinel replacement (Some 1) (decode_file b) = pre @ replacement @ post \<and>
     fs (fst (patch_main w)) (TARGET (plat w)) = Some (File tg) \<and>
     encode_file (plat w) (pre @ replacement @ post) = Some tg \<and>
     decode_file tg = pre @ replacement @ post \<and>
     replacement =
       str ''import os\<newline>'' @
       str ''if str(os.getenv('SCIWING_LITE','' @ [0x27, 0x27] @
         str '')).lower() in ('1','true','yes','y'):\<newline>'' @
       str ''    BowElmoEmbedder = None  # LITE '' @
         [0x6A21, 0x5F0F, 0xFF1A, 0x4E0D, 0x89E6, 0x53D1] @ str '' allennlp '' @
         [0x4F9D, 0x8D56, 0x0A] @
       str ''else:\<newline>'' @
       str ''    '' @ sentinel @ str ''\<newline>''"
proof -
  obtain pre post where src: "decode_file b = pre @ sentinel @ post"
    and first: "\<forall>pre' post'. decode_file b = pre' @ sentinel @ post' \<longrightarrow> length pre \<le> length pre'"
    and rep: "str_replace_from sentinel replacement (Some 1) (decode_file b) = pre @ replacement @ post"
    using replace_first [OF sentinel_not_empty assms(2)] by blast
  obtain pre2 post2 bk tg where
    src2: "decode_file b = pre2 @ sentinel @ post2"
    and first2: "\<forall>pre' post'. decode_file b = pre' @ sentinel @ post' \<longrightarrow> length pre2 \<le> length pre'"
    and e: "encode_file (plat w) (pre2 @ replacement @ post2) = Some tg"
    and d: "decode_file tg = pre2 @ replacement @ post2"
    and m: "patch_main w =
       (w\<lparr>fs := (fs w)(BACKUP (plat w) \<mapsto> File bk, TARGET (plat w) \<mapsto> File tg),
          log := log w @ [Wrote (BACKUP (plat w)) bk, Wrote (TARGET (plat w)) tg,
                          Printed (patched_message (plat w))]\<rparr>, None)"
    using patch_main_patches [OF assms] by blast
  have "length pre = length pre2" using src src2 first first2 by (meson le_antisym)
  then have eq: "pre2 = pre" "post2 = post" using src src2 by auto
  have t: "fs (fst (patch_main w)) (TARGET (plat w)) = Some (File tg)" using m by simp
  have r: "str_replace sentinel replacement (Some 1) (decode_file b) = pre @ replacement @ post"
    using rep by (simp only: str_replace_sentinel)
  have l: "replacement =
       str ''import os\<newline>'' @
       str ''if str(os.getenv('SCIWING_LITE','' @ [0x27, 0x27] @
         str '')).lower() in ('1','true','yes','y'):\<newline>'' @
       str ''    BowElmoEmbedder = None  # LITE '' @
         [0x6A21, 0x5F0F, 0xFF1A, 0x4E0D, 0x89E6, 0x53D1] @ str '' allennlp '' @
         [0x4F9D, 0x8D56, 0x0A] @
       str ''else:\<newline>'' @
       str ''    '' @ sentinel @ str ''\<newline>''"
    by (simp add: replacement_def replacement_lines_def sentinel_def str_def)
  show ?thesis using src first r t e d l unfolding eq by blast
qed

theorem C8_first_occurrence_replaced_witness:
  "fs (sentinel_only Windows) (TARGET (plat (sentinel_only Windows))) =
     Some (File (map of_nat sentinel)) \<and>
   str_contains sentinel (decode_file (map of_nat sentinel)) \<and>
   fs (sentinel_only Windows) (BACKUP (plat (sentinel_only Windows))) \<noteq> Some Dir \<and>
   (\<exists>tg.
     fs (fst (patch_main (sentinel_only Windows))) (TARGET (plat (sentinel_only Windows))) =
       Some (File tg) \<and>
     decode_file tg = replacement)"
proof -
  have a: "fs (sentinel_only Windows) (TARGET (plat (sentinel_only Windows))) =
     Some (File (map of_nat sentinel))"
    by (simp add: sentinel_only_facts)
  have b: "str_contains sentinel (decode_file (map of_nat sentinel))"
    by (simp add: decode_file_sentinel sentinel_in_sentinel)
  have c: "fs (sentinel_only Windows) (BACKUP (plat (sentinel_only Windows))) \<noteq> Some Dir"
    by (simp add: sentinel_only_facts)
  obtain pre post tg where
    s: "decode_file (map of_nat sentinel) = pre @ sentinel @ post"
    and t: "fs (fst (patch_main (sentinel_only Windows))) (TARGET (plat (sentinel_only Windows))) =
       Some (File tg)"
    and d: "decode_file tg = pre @ replacement @ post"
    using C8_first_occurrence_replaced [OF a b c] by blast
  have "length sentinel = length (pre @ sentinel @ post)" using s by (simp add: decode_file_sentinel)
  then have "pre = []" "post = []" by simp_all
  then have "decode_file tg = replacement" using d by simp
  then show ?thesis using a b c t by blast
qed

lemma decode_broken_example:
  "\<not> (\<exists>c e. utf8_encode_char c = Some e \<and> prefix e [0xE2, 0x82, 0x42])"
proof
  assume "\<exists>c e. utf8_encode_char c = Some e \<and> prefix e [0xE2, 0x82, 0x42]"
  then obtain c e r where c: "utf8_encode_char c = Some e" and p: "[0xE2, 0x82, 0x42] = e @ r"
    by (auto simp: prefix_def)
  have "utf8_decode_ignore [0xE2, 0x82, 0x42] = [0x42]"
    by (simp add: decode_lead3 valid_second_def is_continuation_def decode_ascii)
  then have d: "c # utf8_decode_ignore r = [0x42]"
    using decode_encode_char [OF c, of r] p by simp
  then have "e = [0x42]" using c by (simp add: utf8_encode_char_def)
  then show False using p by simp
qed

lemma decode_continuation_example:
  "\<not> (\<exists>c e. utf8_encode_char c = Some e \<and> prefix e [0x82, 0x42])"
proof
  assume "\<exists>c e. utf8_encode_char c = Some e \<and> prefix e [0x82, 0x42]"
  then obtain c e r where c: "utf8_encode_char c = Some e" and p: "[0x82, 0x42] = e @ r"
    by (auto simp: prefix_def)
  have "utf8_decode_ignore [0x82, 0x42] = [0x42]"
    using decode_invalid_start [of "0x82" "[0x42]"] by (simp add: decode_ascii)
  then have d: "c # utf8_decode_ignore r = [0x42]"
    using decode_encode_char [OF c, of r] p by simp
  then have "e = [0x42]" using c by (simp add: utf8_encode_char_def)
  then show False using p by simp
qed

text \<open>
  C9, as the code has it. Reading a file that exists never fails on its bytes: whatever
  they are, the read gives a text. With \<open>errors="ignore"\<close> the bytes that cannot be
  decoded are dropped and nothing is put in their place. The decoder goes through the
  bytes from the front: where they begin with the encoding of a character, that
  character is put out and the bytes of its encoding are passed; where they do not,
  the first byte is dropped. These rules fix the decoded text for every input. The
  characters decoded, when encoded again, give the bytes of the file with some of them
  taken out; and bytes that encode a text without carriage returns are read as that
  text.
\<close>

theorem C9_read_drops_undecodable:
  "(fs w p = Some (File b) \<longrightarrow> read_text w p = Inr (decode_file b)) \<and>
   decode_file b = universal_newlines (utf8_decode_ignore (map unat b)) \<and>
   utf8_decode_ignore [] = [] \<and>
   (utf8_encode_char c = Some e \<longrightarrow> utf8_decode_ignore (e @ r) = c # utf8_decode_ignore r) \<and>
   (\<not> (\<exists>c' e'. utf8_encode_char c' = Some e' \<and> prefix e' (x # r)) \<longrightarrow>
      utf8_decode_ignore (x # r) = utf8_decode_ignore r) \<and>
   (\<exists>e. utf8_encode (utf8_decode_ignore (map unat b)) = Some e \<and> subseq e (map unat b)) \<and>
   (list_all (\<lambda>c. c \<noteq> 0x0D) s \<and> encode_file pl s = Some b' \<longrightarrow> decode_file b' = s)"
proof (intro conjI impI)
  assume "fs w p = Some (File b)"
  then show "read_text w p = Inr (decode_file b)" by (simp add: read_text_def)
next
  show "decode_file b = universal_newlines (utf8_decode_ignore (map unat b))"
    by (simp add: decode_file_def)
next
  show "utf8_decode_ignore [] = []" by simp
next
  assume "utf8_encode_char c = Some e"
  then show "utf8_decode_ignore (e @ r) = c # utf8_decode_ignore r"
    by (rule decode_encode_char)
next
  assume "\<not> (\<exists>c' e'. utf8_encode_char c' = Some e' \<and> prefix e' (x # r))"
  then show "utf8_decode_ignore (x # r) = utf8_decode_ignore r"
    by (rule decode_drop_first)
next
  show "\<exists>e. utf8_encode (utf8_decode_ignore (map unat b)) = Some e \<and> subseq e (map unat b)"
    by (rule decode_reencode)
next
  assume "list_all (\<lambda>c. c \<noteq> 0x0D) s \<and> encode_file pl s = Some b'"
  then show "decode_file b' = s" using decode_encode_file by blast
qed

theorem C9_read_drops_undecodable_witness:
  "fs (lone_byte Posix) (TARGET Posix) = Some (File [0xFF]) \<and>
   read_text (lone_byte Posix) (TARGET Posix) = Inr (decode_file [0xFF]) \<and>
   utf8_encode_char 0x41 = Some [0x41] \<and>
   utf8_encode_char 0x42 = Some [0x42] \<and>
   \<not> (\<exists>c e. utf8_encode_char c = Some e \<and> prefix e [0xE2, 0x82, 0x42]) \<and>
   \<not> (\<exists>c e. utf8_encode_char c = Some e \<and> prefix e [0x82, 0x42]) \<and>
   utf8_decode_ignore [0x41, 0xE2, 0x82, 0x42] = [0x41, 0x42] \<and>
   list_all (\<lambda>c. c \<noteq> 0x0D) sentinel \<and>
   encode_file Posix sentinel = Some (map of_nat sentinel) \<and>
   decode_file (map of_nat sentinel) = sentinel"
proof -
  have a: "fs (lone_byte Posix) (TARGET Posix) = Some (File [0xFF])"
    by (simp add: lone_byte_def bare_world_def)
  have e1: "utf8_encode_char 0x41 = Some [0x41]" by (simp add: utf8_encode_char_def)
  have e2: "utf8_encode_char 0x42 = Some [0x42]" by (simp add: utf8_encode_char_def)
  have d: "list_all (\<lambda>c. c \<noteq> 0x0D) sentinel \<and> encode_file Posix sentinel = Some (map of_nat sentinel)"
    using sentinel_ascii(2) encode_file_sentinel by blast
  note t1 = C9_read_drops_undecodable
      [of "lone_byte Posix" "TARGET Posix" "[0xFF]" "0x41" "[0x41]" "[0xE2, 0x82, 0x42]" "0xE2"
          sentinel Posix "map of_nat sentinel"]
  have s1: "utf8_decode_ignore ([0x41] @ [0xE2, 0x82, 0x42]) = 0x41 # utf8_decode_ignore [0xE2, 0x82, 0x42]"
    using t1 e1 by blast
  have s2: "utf8_decode_ignore [0xE2, 0x82, 0x42] = utf8_decode_ignore [0x82, 0x42]"
    using C9_read_drops_undecodable
      [of "lone_byte Posix" "TARGET Posix" "[0xFF]" "0x41" "[0x41]" "[0x82, 0x42]" "0xE2"
          sentinel Posix "map of_nat sentinel"]
      decode_broken_example by blast
  have s3: "utf8_decode_ignore [0x82, 0x42] = utf8_decode_ignore [0x42]"
    using C9_read_drops_undecodable
      [of "lone_byte Posix" "TARGET Posix" "[0xFF]" "0x41" "[0x41]" "[0x42]" "0x82"
          sentinel Posix "map of_nat sentinel"]
      decode_continuation_example by blast
  have s4: "utf8_decode_ignore ([0x42] @ []) = 0x42 # utf8_decode_ignore []"
    using C9_read_drops_undecodable
      [of "lone_byte Posix" "TARGET Posix" "[0xFF]" "0x42" "[0x42]" "[]" "0xE2"
          sentinel Posix "map of_nat sentinel"]
      e2 by blast
  have s5: "utf8_decode_ignore [] = []" using t1 by blast
  have r: "utf8_decode_ignore [0x41, 0xE2, 0x82, 0x42] = [0x41, 0x42]"
    using s1 s2 s3 s4 s5 by simp
  have f: "read_text (lone_byte Posix) (TARGET Posix) = Inr (decode_file [0xFF])"
    and g: "decode_file (map of_nat sentinel) = sentinel"
    using t1 a d by blast+
  show ?thesis
    using a f e1 e2 decode_broken_example decode_continuation_example r d g by blast
qed

text \<open>
  The claim as written fails on a file that holds the single byte \<open>0xFF\<close>: the text
  read is empty, so nothing stands in for the byte.
\<close>

theorem C9_counterexample:
  "fs (lone_byte Posix) (TARGET Posix) = Some (File [0xFF]) \<and>
   read_text (lone_byte Posix) (TARGET Posix) = Inr []"
  by (simp add: lone_byte_def bare_world_def read_text_def decode_file_lone)

end
